theory Spec2Isabelle
  imports Complex_Main "HOL-Library.Monad_Syntax"
begin

section \<open>Strings of the runtime\<close>

text \<open>
  The two edge functions \<open>process-ocr\<close> and \<open>create-calendar-event\<close> are TypeScript
  programs. A string is modelled as a list of 8-bit characters, read as the code units
  U+0000 .. U+00FF. What the source uses of the string library is written out below.
\<close>

definition is_space :: "char \<Rightarrow> bool" where
  \<comment> \<open>white space and line terminators: TAB, LF, VT, FF, CR, SP, NBSP\<close>
  "is_space c = (c \<in> set [CHR 0x09, CHR 0x0A, CHR 0x0B, CHR 0x0C, CHR 0x0D, CHR 0x20, CHR 0xA0])"

definition is_digit :: "char \<Rightarrow> bool" where
  "is_digit c = (c \<in> set ''0123456789'')"

definition trim :: "string \<Rightarrow> string" where
  "trim s = rev (dropWhile is_space (rev (dropWhile is_space s)))"

definition upper_case :: string where
  \<comment> \<open>A-Z, and the upper-case letters of U+00C0 .. U+00DE (U+00D7 is the times sign)\<close>
  "upper_case = ''ABCDEFGHIJKLMNOPQRSTUVWXYZ'' @
     [CHR 0xC0, CHR 0xC1, CHR 0xC2, CHR 0xC3, CHR 0xC4, CHR 0xC5, CHR 0xC6, CHR 0xC7,
      CHR 0xC8, CHR 0xC9, CHR 0xCA, CHR 0xCB, CHR 0xCC, CHR 0xCD, CHR 0xCE, CHR 0xCF,
      CHR 0xD0, CHR 0xD1, CHR 0xD2, CHR 0xD3, CHR 0xD4, CHR 0xD5, CHR 0xD6, CHR 0xD8,
      CHR 0xD9, CHR 0xDA, CHR 0xDB, CHR 0xDC, CHR 0xDD, CHR 0xDE]"

definition lower_char :: "char \<Rightarrow> char" where
  \<comment> \<open>an upper-case letter goes to the letter 32 code units higher, that is, bit 5 is
      set; it is clear in every upper-case letter, so the test of the bit comes first\<close>
  "lower_char c =
     (case c of Char b0 b1 b2 b3 b4 b5 b6 b7 \<Rightarrow>
        if \<not> b5 \<and> c \<in> set upper_case then Char b0 b1 b2 b3 b4 True b6 b7 else c)"

definition toLowerCase :: "string \<Rightarrow> string" where
  "toLowerCase s = map lower_char s"

definition startsWith :: "string \<Rightarrow> string \<Rightarrow> bool" where
  "startsWith s p = (take (length p) s = p)"

fun includes_str :: "string \<Rightarrow> string \<Rightarrow> bool" where
  "includes_str [] p = (p = [])"
| "includes_str (c # cs) p = (startsWith (c # cs) p \<or> includes_str cs p)"

fun split_acc :: "string \<Rightarrow> string \<Rightarrow> string list" where
  "split_acc acc [] = [acc]"
| "split_acc acc (c # cs) =
     (if c = CHR 0x0A then acc # split_acc [] cs else split_acc (acc @ [c]) cs)"

definition split_lines :: "string \<Rightarrow> string list" where
  \<comment> \<open>\<open>text.split('\n')\<close>\<close>
  "split_lines s = split_acc [] s"

fun join_lines :: "string list \<Rightarrow> string" where
  \<comment> \<open>\<open>xs.join('\n')\<close>\<close>
  "join_lines [] = []"
| "join_lines [x] = x"
| "join_lines (x # y # ys) = x @ [CHR 0x0A] @ join_lines (y # ys)"

definition truthy :: "string option \<Rightarrow> bool" where
  \<comment> \<open>a string-valued field in a condition: \<open>undefined\<close>, \<open>null\<close> and \<open>''\<close> are falsy\<close>
  "truthy v = (case v of None \<Rightarrow> False | Some s \<Rightarrow> s \<noteq> [])"

definition or_else :: "string option \<Rightarrow> string \<Rightarrow> string" where
  \<comment> \<open>\<open>v || d\<close> for a string or \<open>null\<close> \<open>v\<close>\<close>
  "or_else v d = (case v of None \<Rightarrow> d | Some s \<Rightarrow> if s = [] then d else s)"

definition or_undefined :: "string \<Rightarrow> string option" where
  \<comment> \<open>\<open>s || undefined\<close>\<close>
  "or_undefined s = (if s = [] then None else Some s)"

section \<open>Regular expressions\<close>

text \<open>
  The regular expressions of the source are sequences of four kinds of item: an
  alternation of literal words, an optional alternation of literal words, a greedy
  repetition of a character class, and the parentheses of capture group 1 (the only
  group the source reads). \<open>run\<close> is the backtracking matcher at one position: items match
  left to right, alternatives are tried in their order, repetitions from the longest to
  the shortest. \<open>rx_exec\<close> is \<open>String.prototype.match\<close> for a non-global expression:
  the match at the leftmost position that has one.
\<close>

datatype cls = Digit | Space | NotCommaNl | CommaOrSpace

fun in_cls :: "cls \<Rightarrow> char \<Rightarrow> bool" where
  "in_cls Digit c = is_digit c"                                 \<comment> \<open>\<open>\d\<close>\<close>
| "in_cls Space c = is_space c"                                 \<comment> \<open>\<open>\s\<close>\<close>
| "in_cls NotCommaNl c = (c \<noteq> CHR '','' \<and> c \<noteq> CHR 0x0A)"         \<comment> \<open>\<open>[^,\n]\<close>\<close>
| "in_cls CommaOrSpace c = (c = CHR '','' \<or> is_space c)"          \<comment> \<open>\<open>[,\s]\<close>\<close>

datatype item =
    Lit "string list"             \<comment> \<open>\<open>(?:a|b|c)\<close>, a single word when the list has one\<close>
  | Opt "string list"             \<comment> \<open>\<open>(?:a|b|c)?\<close>\<close>
  | Rep cls nat "nat option"      \<comment> \<open>\<open>c{m,n}\<close>; \<open>c*\<close> is \<open>Rep c 0 None\<close>, \<open>c+\<close> is \<open>Rep c 1 None\<close>\<close>
  | Open                          \<comment> \<open>\<open>(\<close> of group 1\<close>
  | Close                         \<comment> \<open>\<open>)\<close> of group 1\<close>

record regex =
  items :: "item list"
  ignoreCase :: bool

record rx_match =
  whole :: string                 \<comment> \<open>\<open>match[0]\<close>\<close>
  group1 :: "string option"       \<comment> \<open>\<open>match[1]\<close>, \<open>None\<close> for \<open>undefined\<close>\<close>

definition char_eq :: "bool \<Rightarrow> char \<Rightarrow> char \<Rightarrow> bool" where
  \<comment> \<open>the pattern character \<open>x\<close> (lower case in the source) against the input character
      \<open>c\<close>; under the flag \<open>i\<close> a letter matches in either case\<close>
  "char_eq ic x c = (if c = x then True else if ic then lower_char c = x else False)"

fun lit_at :: "bool \<Rightarrow> string \<Rightarrow> string \<Rightarrow> bool" where
  \<comment> \<open>the word \<open>a\<close> matches at the head of \<open>s\<close>\<close>
  "lit_at ic [] s = True"
| "lit_at ic (x # xs) [] = False"
| "lit_at ic (x # xs) (c # cs) = (if char_eq ic x c then lit_at ic xs cs else False)"

fun first_some :: "'a option list \<Rightarrow> 'a option" where
  "first_some [] = None"
| "first_some (None # xs) = first_some xs"
| "first_some (Some x # xs) = Some x"

fun run :: "bool \<Rightarrow> item list \<Rightarrow> string \<Rightarrow> string \<Rightarrow> nat \<Rightarrow> string option \<Rightarrow> rx_match option" where
  "run ic [] s seen st cap = Some \<lparr>whole = seen, group1 = cap\<rparr>"
| "run ic (Open # r) s seen st cap = run ic r s seen (length seen) cap"
| "run ic (Close # r) s seen st cap = run ic r s seen st (Some (drop st seen))"
| "run ic (Lit as # r) s seen st cap =
     first_some (map (\<lambda>a. run ic r (drop (length a) s) (seen @ take (length a) s) st cap)
                     (filter (\<lambda>a. lit_at ic a s) as))"
| "run ic (Opt as # r) s seen st cap =
     first_some (map (\<lambda>a. run ic r (drop (length a) s) (seen @ take (length a) s) st cap)
                     (filter (\<lambda>a. lit_at ic a s) (as @ [[]])))"
| "run ic (Rep c lo hi # r) s seen st cap =
     (let n = length (takeWhile (in_cls c) s);
          m = (case hi of None \<Rightarrow> n | Some h \<Rightarrow> min h n)
      in first_some (map (\<lambda>k. run ic r (drop k s) (seen @ take k s) st cap)
                         (rev [lo ..< Suc m])))"

fun rx_search :: "regex \<Rightarrow> string \<Rightarrow> rx_match option" where
  "rx_search re [] = run (ignoreCase re) (items re) [] [] 0 None"
| "rx_search re (c # cs) =
     (case run (ignoreCase re) (items re) (c # cs) [] 0 None of
        Some m \<Rightarrow> Some m
      | None \<Rightarrow> rx_search re cs)"

definition rx_exec :: "string \<Rightarrow> regex \<Rightarrow> rx_match option" where
  \<comment> \<open>\<open>line.match(regex)\<close>\<close>
  "rx_exec line re = rx_search re line"

section \<open>Dates of the runtime\<close>

text \<open>
  A time value is a number of milliseconds since 1970-01-01T00:00:00Z, or \<open>NaN\<close>
  (here \<open>None\<close>). The day and year arithmetic is that of ECMA-262 (Day Number, Year
  Number, Month Number, Date Number, MakeDay, MakeDate, TimeClip). The standard defines
  the year of a day as the largest year that begins on or before it; \<open>YearFromDay\<close>
  computes it, as lemma \<open>YearFromDay_correct\<close> shows.
\<close>

definition msPerDay :: int where
  "msPerDay = 86400000"

definition DayFromYear :: "int \<Rightarrow> int" where
  "DayFromYear y =
     365 * (y - 1970) + (y - 1969) div 4 - (y - 1901) div 100 + (y - 1601) div 400"

definition InLeapYear :: "int \<Rightarrow> int" where
  "InLeapYear y = (if y mod 4 = 0 \<and> (y mod 100 \<noteq> 0 \<or> y mod 400 = 0) then 1 else 0)"

definition YearFromDay :: "int \<Rightarrow> int" where
  \<comment> \<open>the year \<open>y\<close> with \<open>DayFromYear y \<le> d < DayFromYear (y + 1)\<close>: an estimate from the
      mean length of a year, corrected by at most one\<close>
  "YearFromDay d =
     (let y = 1970 + (400 * d) div 146097
      in if DayFromYear (y + 1) \<le> d then y + 1
         else if d < DayFromYear y then y - 1
         else y)"

definition MonthFromDay :: "int \<Rightarrow> int \<Rightarrow> int" where
  \<comment> \<open>month number 0 .. 11 of the day \<open>n\<close> within a year, \<open>l\<close> the leap-year flag\<close>
  "MonthFromDay n l =
     (if n < 31 then 0 else if n < 59 + l then 1 else if n < 90 + l then 2
      else if n < 120 + l then 3 else if n < 151 + l then 4 else if n < 181 + l then 5
      else if n < 212 + l then 6 else if n < 243 + l then 7 else if n < 273 + l then 8
      else if n < 304 + l then 9 else if n < 334 + l then 10 else 11)"

definition MonthStart :: "int \<Rightarrow> int \<Rightarrow> int" where
  \<comment> \<open>the day within the year on which month \<open>m\<close> (0 .. 11) begins\<close>
  "MonthStart m l =
     (if m = 0 then 0 else if m = 1 then 31 else if m = 2 then 59 + l
      else if m = 3 then 90 + l else if m = 4 then 120 + l else if m = 5 then 151 + l
      else if m = 6 then 181 + l else if m = 7 then 212 + l else if m = 8 then 243 + l
      else if m = 9 then 273 + l else if m = 10 then 304 + l else 334 + l)"

definition DaysInMonth :: "int \<Rightarrow> int \<Rightarrow> int" where
  "DaysInMonth m l = (if m = 11 then 31 else MonthStart (m + 1) l - MonthStart m l)"

definition MakeDay :: "int \<Rightarrow> int \<Rightarrow> int \<Rightarrow> int" where
  \<comment> \<open>year, month number 0 .. 11, date 1 .. 31\<close>
  "MakeDay y m d = DayFromYear y + MonthStart m (InLeapYear y) + d - 1"

definition MakeTime :: "int \<Rightarrow> int \<Rightarrow> int \<Rightarrow> int \<Rightarrow> int" where
  "MakeTime h mi sec ms = h * 3600000 + mi * 60000 + sec * 1000 + ms"

definition MakeDate :: "int \<Rightarrow> int \<Rightarrow> int" where
  "MakeDate day time = day * msPerDay + time"

definition TimeClip :: "int option \<Rightarrow> int option" where
  "TimeClip v = (case v of None \<Rightarrow> None
                 | Some t \<Rightarrow> if \<bar>t\<bar> > 8640000000000000 then None else Some t)"

subsection \<open>\<open>Date.prototype.toISOString\<close>\<close>

definition digit_char :: "int \<Rightarrow> char" where
  \<comment> \<open>of a number 0 .. 9\<close>
  "digit_char n = ''0123456789'' ! nat n"

definition pad2 :: "int \<Rightarrow> string" where
  "pad2 n = [digit_char (n div 10 mod 10), digit_char (n mod 10)]"

definition pad3 :: "int \<Rightarrow> string" where
  "pad3 n = digit_char (n div 100 mod 10) # pad2 n"

definition pad4 :: "int \<Rightarrow> string" where
  "pad4 n = digit_char (n div 1000 mod 10) # pad3 n"

definition pad6 :: "int \<Rightarrow> string" where
  "pad6 n = digit_char (n div 100000 mod 10) # digit_char (n div 10000 mod 10) # pad4 n"

definition year_string :: "int \<Rightarrow> string" where
  \<comment> \<open>four digits for the years 0 .. 9999, a sign and six digits otherwise\<close>
  "year_string y =
     (if 0 \<le> y \<and> y \<le> 9999 then pad4 y
      else (if y < 0 then CHR ''-'' else CHR ''+'') # pad6 \<bar>y\<bar>)"

definition toISOString :: "int \<Rightarrow> string" where
  \<comment> \<open>of a valid time value; on an invalid date the method throws \<open>RangeError\<close>, which
      the callers below write out\<close>
  "toISOString t =
     (let day = t div msPerDay; tm = t mod msPerDay;
          y = YearFromDay day; n = day - DayFromYear y; l = InLeapYear y;
          m = MonthFromDay n l; d = n - MonthStart m l + 1
      in year_string y @ ''-'' @ pad2 (m + 1) @ ''-'' @ pad2 d @ ''T''
         @ pad2 (tm div 3600000) @ '':'' @ pad2 (tm div 60000 mod 60) @ '':''
         @ pad2 (tm div 1000 mod 60) @ ''.'' @ pad3 (tm mod 1000) @ ''Z'')"

subsection \<open>\<open>Date.parse\<close>\<close>

text \<open>
  \<open>parseISO\<close> reads the UTC forms of the ECMA-262 date-time string format:
  \<open>YYYY-MM-DD\<close>, \<open>YYYY-MM-DDTHH:mm:ssZ\<close> and \<open>YYYY-MM-DDTHH:mm:ss.sssZ\<close>, the year also
  as a sign and six digits, every field in its range. What a runtime makes of any other
  string (the other forms of the format, local times, its own legacy formats) is left to
  the parameter \<open>other\<close> of \<open>Date_parse\<close>: the standard does not fix it.
\<close>

definition digit_val :: "char \<Rightarrow> int" where
  \<comment> \<open>of a digit\<close>
  "digit_val c =
     (case map_of (zip ''0123456789'' [0, 1, 2, 3, 4, 5, 6, 7, 8, 9]) c of
        None \<Rightarrow> 0 | Some n \<Rightarrow> n)"

definition number :: "string \<Rightarrow> int" where
  "number ds = foldl (\<lambda>a c. 10 * a + digit_val c) 0 ds"

definition digits :: "nat \<Rightarrow> string \<Rightarrow> (int \<times> string) option" where
  \<comment> \<open>exactly \<open>n\<close> digits at the head of \<open>s\<close>: their value and the rest\<close>
  "digits n s =
     (if n \<le> length s \<and> list_all is_digit (take n s) then Some (number (take n s), drop n s)
      else None)"

definition expect :: "char \<Rightarrow> string \<Rightarrow> string option" where
  "expect c s = (case s of [] \<Rightarrow> None | x # xs \<Rightarrow> if x = c then Some xs else None)"

definition parse_year :: "string \<Rightarrow> (int \<times> string) option" where
  \<comment> \<open>\<open>YYYY\<close>, \<open>+YYYYYY\<close> or \<open>-YYYYYY\<close>; the format excludes \<open>-000000\<close>\<close>
  "parse_year s =
     (case s of
        [] \<Rightarrow> None
      | c # cs \<Rightarrow>
          if c = CHR ''+'' then digits 6 cs
          else if c = CHR ''-'' then
            (case digits 6 cs of
               None \<Rightarrow> None
             | Some (y, r) \<Rightarrow> if y = 0 then None else Some (- y, r))
          else digits 4 s)"

definition parse_time :: "string \<Rightarrow> int option" where
  \<comment> \<open>\<open>THH:mm:ssZ\<close> or \<open>THH:mm:ss.sssZ\<close>, to the end of the string\<close>
  "parse_time s = do {
     r0 \<leftarrow> expect CHR ''T'' s;
     (h, r1) \<leftarrow> digits 2 r0;
     r2 \<leftarrow> expect CHR '':'' r1;
     (mi, r3) \<leftarrow> digits 2 r2;
     r4 \<leftarrow> expect CHR '':'' r3;
     (sec, r5) \<leftarrow> digits 2 r4;
     (ms, r6) \<leftarrow> (case expect CHR ''.'' r5 of None \<Rightarrow> Some (0, r5) | Some r \<Rightarrow> digits 3 r);
     if r6 = ''Z'' \<and> h \<le> 23 \<and> mi \<le> 59 \<and> sec \<le> 59
     then Some (MakeTime h mi sec ms) else None
   }"

definition parseISO :: "string \<Rightarrow> int option" where
  "parseISO s = do {
     (y, r1) \<leftarrow> parse_year s;
     r2 \<leftarrow> expect CHR ''-'' r1;
     (m, r3) \<leftarrow> digits 2 r2;
     r4 \<leftarrow> expect CHR ''-'' r3;
     (d, r5) \<leftarrow> digits 2 r4;
     tm \<leftarrow> (if r5 = [] then Some 0 else parse_time r5);
     if 1 \<le> m \<and> m \<le> 12 \<and> 1 \<le> d \<and> d \<le> DaysInMonth (m - 1) (InLeapYear y)
     then Some (MakeDate (MakeDay y (m - 1) d) tm) else None
   }"

definition Date_parse :: "(string \<Rightarrow> int option) \<Rightarrow> string \<Rightarrow> int option" where
  \<comment> \<open>the time value of \<open>new Date(s)\<close> for a string \<open>s\<close>\<close>
  "Date_parse other s = TimeClip (case parseISO s of Some t \<Rightarrow> Some t | None \<Rightarrow> other s)"

section \<open>Numbers of the runtime\<close>

text \<open>
  A number of the runtime is a binary floating-point number with a significand of 53
  bits. The program computes with fractions in one place only, the confidence, which is
  modelled by the rational that the number denotes. A decimal literal denotes the number
  nearest to it, and a sum is the exact sum rounded to the nearest number; of two nearest
  numbers the one with the even significand is taken. This rounding is \<open>fl\<close>. The range of
  the exponent is not modelled: the confidence stays between 0.5 and \<open>2 ^ 53\<close> (lemma
  \<open>confidence_range\<close>), where no sum overflows and no number is subnormal.
\<close>

function two_floor :: "rat \<Rightarrow> rat" where
  \<comment> \<open>the largest power of two that is at most \<open>x\<close>, for a positive \<open>x\<close>\<close>
  "two_floor x =
     (if x \<le> 0 then 1
      else if x < 1 then two_floor (2 * x) / 2
      else if 2 \<le> x then 2 * two_floor (x / 2)
      else 1)"
  by pat_completeness auto
termination
proof -
  have half: "\<And>y::rat. 1 \<le> y \<Longrightarrow> \<lfloor>y / 2\<rfloor> < \<lfloor>y\<rfloor>"
  proof -
    fix y :: rat
    assume y: "1 \<le> y"
    show "\<lfloor>y / 2\<rfloor> < \<lfloor>y\<rfloor>"
    proof (cases "2 \<le> y")
      case True
      have "of_int \<lfloor>y / 2\<rfloor> \<le> y / 2" by (rule of_int_floor_le)
      with True have "of_int (\<lfloor>y / 2\<rfloor> + 1) \<le> y" by simp
      then have "\<lfloor>y / 2\<rfloor> + 1 \<le> \<lfloor>y\<rfloor>" by (simp only: le_floor_iff)
      then show ?thesis by simp
    next
      case False
      then have "y / 2 < 1" by simp
      then have "\<lfloor>y / 2\<rfloor> < 1" by (simp add: floor_less_iff)
      moreover have "1 \<le> \<lfloor>y\<rfloor>" using y by (simp add: le_floor_iff)
      ultimately show ?thesis by linarith
    qed
  qed
  show ?thesis
  proof (relation "measure (\<lambda>x. if 1 \<le> x then nat \<lfloor>x\<rfloor> else nat \<lfloor>1 / x\<rfloor> + 1)", goal_cases)
    case 1
    show ?case by simp
  next
    case (2 x)
    then have x: "0 < x" "x < 1" by simp_all
    then have y: "1 \<le> 1 / x" by simp
    show ?case
    proof (cases "1 \<le> 2 * x")
      case True
      then have "2 * x < 2" using x by simp
      then have "\<lfloor>2 * x\<rfloor> = 1" using True by (simp add: floor_eq_iff)
      moreover have "1 \<le> \<lfloor>1 / x\<rfloor>" using y by (simp add: le_floor_iff)
      ultimately show ?thesis using True x by simp
    next
      case False
      have "1 / (2 * x) = (1 / x) / 2" by simp
      with half [OF y] have "\<lfloor>1 / (2 * x)\<rfloor> < \<lfloor>1 / x\<rfloor>" by (simp only:)
      moreover have "0 \<le> \<lfloor>1 / (2 * x)\<rfloor>" using x by simp
      ultimately show ?thesis using False x by simp
    qed
  next
    case (3 x)
    then have x: "2 \<le> x" by simp
    then have "1 \<le> x / 2" by simp
    moreover have "\<lfloor>x / 2\<rfloor> < \<lfloor>x\<rfloor>" using x by (intro half) simp
    moreover have "0 \<le> \<lfloor>x / 2\<rfloor>" using x by simp
    ultimately show ?case using x by simp
  qed
qed

declare two_floor.simps [simp del]

definition ulp :: "rat \<Rightarrow> rat" where
  \<comment> \<open>the distance of neighbouring numbers between \<open>two_floor x\<close> and its double\<close>
  "ulp x = two_floor x / 2 ^ 52"

definition round_even :: "rat \<Rightarrow> int" where
  \<comment> \<open>the nearest integer, the even one of two nearest\<close>
  "round_even r =
     (let n = \<lfloor>r\<rfloor>; d = r - of_int n
      in if d < 1 / 2 then n else if 1 / 2 < d then n + 1 else if even n then n else n + 1)"

definition fl :: "rat \<Rightarrow> rat" where
  "fl x =
     (if x = 0 then 0
      else if x < 0 then - (of_int (round_even (- x / ulp (- x))) * ulp (- x))
      else of_int (round_even (x / ulp x)) * ulp x)"

definition representable :: "rat \<Rightarrow> bool" where
  \<comment> \<open>the rationals that are numbers of the runtime\<close>
  "representable x = (fl x = x)"

definition in_range :: "rat \<Rightarrow> bool" where
  \<comment> \<open>the numbers that the confidence takes\<close>
  "in_range c = (1 / 2 \<le> c \<and> c \<le> 2 ^ 53 \<and> representable c)"

section \<open>The text extractor: \<open>parseEventFromText\<close>\<close>

text \<open>
  The confidence is built from the decimal literals \<open>0.5\<close>, \<open>0.1\<close>, \<open>0.2\<close>, \<open>0.3\<close> by
  \<open>+=\<close>, and cut by \<open>Math.min\<close> at \<open>1.0\<close>: every literal and every sum is rounded by \<open>fl\<close>.
\<close>

datatype js_error = TypeError | RangeError

record EventData =
  title :: "string option"
  start_dt :: "string option"
  end_dt :: "string option"
  location :: "string option"
  "notes" :: "string option"
  confidence :: rat

text \<open>The \<open>let\<close> variables of the function body.\<close>

record locals =
  v_title :: string
  v_start_dt :: string
  v_end_dt :: string
  v_location :: string
  v_notes :: string
  v_confidence :: rat
  v_dateFound :: bool
  v_timeFound :: bool

definition initial :: locals where
  "initial = \<lparr>v_title = [], v_start_dt = [], v_end_dt = [], v_location = [], v_notes = [],
              v_confidence = fl (5 / 10), v_dateFound = False, v_timeFound = False\<rparr>"

definition weekdays :: "string list" where
  "weekdays = [''monday'', ''tuesday'', ''wednesday'', ''thursday'', ''friday'', ''saturday'',
               ''sunday'']"

definition months :: "string list" where
  "months = [''january'', ''february'', ''march'', ''april'', ''may'', ''june'', ''july'',
             ''august'', ''september'', ''october'', ''november'', ''december'']"

definition timeRegex :: regex where
  \<comment> \<open>\<open>/(\d{1,2}:\d{2}\s*(?:am|pm))/i\<close>\<close>
  "timeRegex =
     \<lparr>items = [Open, Rep Digit 1 (Some 2), Lit ['':''], Rep Digit 2 (Some 2), Rep Space 0 None,
                Lit [''am'', ''pm''], Close],
      ignoreCase = True\<rparr>"

definition rx_date_label :: regex where
  \<comment> \<open>\<open>/(?:date|when):\s*([^,\n]+)/i\<close>\<close>
  "rx_date_label =
     \<lparr>items = [Lit [''date'', ''when''], Lit ['':''], Rep Space 0 None,
                Open, Rep NotCommaNl 1 None, Close],
      ignoreCase = True\<rparr>"

definition rx_time_label :: regex where
  \<comment> \<open>\<open>/(?:time):\s*([^,\n]+)/i\<close>\<close>
  "rx_time_label =
     \<lparr>items = [Lit [''time''], Lit ['':''], Rep Space 0 None,
                Open, Rep NotCommaNl 1 None, Close],
      ignoreCase = True\<rparr>"

definition rx_weekday :: regex where
  \<comment> \<open>\<open>/(monday|tuesday|wednesday|thursday|friday|saturday|sunday)[,\s]+([^,\n]+)/i\<close>\<close>
  "rx_weekday =
     \<lparr>items = [Open, Lit weekdays, Close, Rep CommaOrSpace 1 None, Rep NotCommaNl 1 None],
      ignoreCase = True\<rparr>"

definition rx_slash_date :: regex where
  \<comment> \<open>\<open>/(\d{1,2}\/\d{1,2}\/\d{4})/\<close>\<close>
  "rx_slash_date =
     \<lparr>items = [Open, Rep Digit 1 (Some 2), Lit [''/''], Rep Digit 1 (Some 2), Lit [''/''],
                Rep Digit 4 (Some 4), Close],
      ignoreCase = False\<rparr>"

definition rx_month_date :: regex where
  \<comment> \<open>\<open>/(january|february|march|april|may|june|july|august|september|october|november|december)\s+\d{1,2}(?:st|nd|rd|th)?,?\s+\d{4}/i\<close>\<close>
  "rx_month_date =
     \<lparr>items = [Open, Lit months, Close, Rep Space 1 None, Rep Digit 1 (Some 2),
                Opt [''st'', ''nd'', ''rd'', ''th''], Opt ['',''], Rep Space 1 None,
                Rep Digit 4 (Some 4)],
      ignoreCase = True\<rparr>"

definition dateTimeRegexes :: "regex list" where
  \<comment> \<open>the fifth expression is the one of \<open>timeRegex\<close>\<close>
  "dateTimeRegexes =
     [rx_date_label, rx_time_label, rx_weekday, rx_slash_date, timeRegex, rx_month_date]"

definition places :: "string list" where
  "places = [''room'', ''center'', ''building'', ''hall'', ''auditorium'']"

definition rx_loc_label :: regex where
  \<comment> \<open>\<open>/(?:location|where|room|address):\s*([^,\n]+)/i\<close>\<close>
  "rx_loc_label =
     \<lparr>items = [Lit [''location'', ''where'', ''room'', ''address''], Lit ['':''],
                Rep Space 0 None, Open, Rep NotCommaNl 1 None, Close],
      ignoreCase = True\<rparr>"

definition rx_loc_at :: regex where
  \<comment> \<open>\<open>/(?:at|@)\s+([^,\n]+(?:room|center|building|hall|auditorium)[^,\n]*)/i\<close>\<close>
  "rx_loc_at =
     \<lparr>items = [Lit [''at'', ''@''], Rep Space 1 None, Open, Rep NotCommaNl 1 None, Lit places,
                Rep NotCommaNl 0 None, Close],
      ignoreCase = True\<rparr>"

definition rx_loc_room :: regex where
  \<comment> \<open>\<open>/(room\s+\d+[^,\n]*)/i\<close>\<close>
  "rx_loc_room =
     \<lparr>items = [Open, Lit [''room''], Rep Space 1 None, Rep Digit 1 None,
                Rep NotCommaNl 0 None, Close],
      ignoreCase = True\<rparr>"

definition rx_loc_place :: regex where
  \<comment> \<open>\<open>/([^,\n]*(?:center|building|hall|auditorium|library)[^,\n]*)/i\<close>\<close>
  "rx_loc_place =
     \<lparr>items = [Open, Rep NotCommaNl 0 None,
                Lit [''center'', ''building'', ''hall'', ''auditorium'', ''library''],
                Rep NotCommaNl 0 None, Close],
      ignoreCase = True\<rparr>"

definition locationRegexes :: "regex list" where
  "locationRegexes = [rx_loc_label, rx_loc_at, rx_loc_room, rx_loc_place]"

definition text_lines :: "string \<Rightarrow> string list" where
  \<comment> \<open>\<open>text.split('\n').map(line => line.trim()).filter(line => line.length > 0)\<close>\<close>
  "text_lines txt = filter (\<lambda>line. length line > 0) (map trim (split_lines txt))"

definition titleCandidates :: "string list \<Rightarrow> string list" where
  "titleCandidates lines =
     filter (\<lambda>line. length line > 5
                   \<and> \<not> includes_str (toLowerCase line) ''date''
                   \<and> \<not> includes_str (toLowerCase line) ''time''
                   \<and> \<not> includes_str (toLowerCase line) ''location'')
            (take 3 lines)"

definition extract_title :: "string list \<Rightarrow> locals \<Rightarrow> locals" where
  "extract_title lines v =
     (case titleCandidates lines of
        [] \<Rightarrow> v
      | t # _ \<Rightarrow> v\<lparr>v_title := t, v_confidence := fl (v_confidence v + fl (2 / 10))\<rparr>)"

definition matched_text :: "rx_match \<Rightarrow> string" where
  \<comment> \<open>\<open>match[1] || match[0]\<close>\<close>
  "matched_text m = (case group1 m of None \<Rightarrow> whole m | Some g \<Rightarrow> if g = [] then whole m else g)"

definition date_try :: "(string \<Rightarrow> int option) \<Rightarrow> string \<Rightarrow> locals \<Rightarrow> js_error + locals" where
  \<comment> \<open>the \<open>try\<close> block of the date loop; \<open>new Date(string)\<close> does not throw, and
      \<open>toISOString\<close> is reached with a valid date only\<close>
  "date_try other matchedText v =
     (case Date_parse other matchedText of
        Some t \<Rightarrow> Inr (v\<lparr>v_start_dt := toISOString t, v_dateFound := True,
                        v_confidence := fl (v_confidence v + fl (3 / 10))\<rparr>)
      | None \<Rightarrow> Inr v)"

definition date_catch :: "string \<Rightarrow> locals \<Rightarrow> locals" where
  \<comment> \<open>the \<open>catch\<close> block of the date loop\<close>
  "date_catch matchedText v =
     (if v_start_dt v = []
      then v\<lparr>v_start_dt := matchedText, v_dateFound := True,
             v_confidence := fl (v_confidence v + fl (1 / 10))\<rparr>
      else v)"

definition date_step :: "(string \<Rightarrow> int option) \<Rightarrow> string \<Rightarrow> locals \<Rightarrow> regex \<Rightarrow> locals" where
  \<comment> \<open>the body of \<open>for (const regex of dateTimeRegexes)\<close>\<close>
  "date_step other line v re =
     (case rx_exec line re of
        None \<Rightarrow> v
      | Some m \<Rightarrow>
          (case date_try other (matched_text m) v of
             Inr v' \<Rightarrow> v'
           | Inl e \<Rightarrow> date_catch (matched_text m) v))"

definition time_step :: "(string \<Rightarrow> int option) \<Rightarrow> string \<Rightarrow> locals \<Rightarrow> locals" where
  \<comment> \<open>"Extract time separately if found"; \<open>new Date\<close> of the combined string does not
      throw, so the inner \<open>catch\<close> has nothing to do\<close>
  "time_step other line v =
     (case rx_exec line timeRegex of
        None \<Rightarrow> v
      | Some timeMatch \<Rightarrow>
          if v_timeFound v then v
          else
            (let v1 = v\<lparr>v_timeFound := True,
                        v_confidence := fl (v_confidence v + fl (2 / 10))\<rparr>
             in if v_start_dt v1 \<noteq> [] \<and> \<not> includes_str (v_start_dt v1) ''T''
                then
                  (let timeStr = (case group1 timeMatch of Some g \<Rightarrow> g | None \<Rightarrow> ''undefined'')
                   in case Date_parse other (v_start_dt v1 @ '' '' @ timeStr) of
                        Some t \<Rightarrow> v1\<lparr>v_start_dt := toISOString t\<rparr>
                      | None \<Rightarrow> v1)
                else v1))"

definition line_step :: "(string \<Rightarrow> int option) \<Rightarrow> locals \<Rightarrow> string \<Rightarrow> locals" where
  \<comment> \<open>the body of the first \<open>for (const line of lines)\<close>\<close>
  "line_step other v line = time_step other line (foldl (date_step other line) v dateTimeRegexes)"

definition extract_date_time :: "(string \<Rightarrow> int option) \<Rightarrow> string list \<Rightarrow> locals \<Rightarrow> locals" where
  "extract_date_time other lines v = foldl (line_step other) v lines"

fun location_line :: "string \<Rightarrow> regex list \<Rightarrow> locals \<Rightarrow> js_error + locals" where
  \<comment> \<open>the inner loop over \<open>locationRegexes\<close>, left by \<open>break\<close> at the first assignment;
      \<open>match[1].trim()\<close> throws when group 1 is \<open>undefined\<close>\<close>
  "location_line line [] v = Inr v"
| "location_line line (re # res) v =
     (case rx_exec line re of
        None \<Rightarrow> location_line line res v
      | Some m \<Rightarrow>
          if v_location v = [] then
            (case group1 m of
               None \<Rightarrow> Inl TypeError
             | Some g \<Rightarrow> Inr (v\<lparr>v_location := trim g,
                               v_confidence := fl (v_confidence v + fl (2 / 10))\<rparr>))
          else location_line line res v)"

fun extract_location :: "string list \<Rightarrow> locals \<Rightarrow> js_error + locals" where
  "extract_location [] v = Inr v"
| "extract_location (line # lines) v =
     (case location_line line locationRegexes v of
        Inl e \<Rightarrow> Inl e
      | Inr v' \<Rightarrow> extract_location lines v')"

definition noteLines :: "string list \<Rightarrow> string list" where
  "noteLines lines =
     filter (\<lambda>line. includes_str line ''@'' \<or> includes_str line ''http''
                   \<or> includes_str line ''contact'') lines"

definition extract_notes :: "string list \<Rightarrow> locals \<Rightarrow> locals" where
  "extract_notes lines v =
     (if length (noteLines lines) > 0
      then v\<lparr>v_notes := join_lines (noteLines lines),
             v_confidence := fl (v_confidence v + fl (1 / 10))\<rparr>
      else v)"

definition end_try :: "(string \<Rightarrow> int option) \<Rightarrow> locals \<Rightarrow> js_error + locals" where
  \<comment> \<open>the \<open>try\<close> block of the default end time: \<open>toISOString\<close> throws on an invalid date\<close>
  "end_try other v =
     (case Date_parse other (v_start_dt v) of
        None \<Rightarrow> Inl RangeError
      | Some startDate \<Rightarrow>
          (case TimeClip (Some (startDate + 2 * 60 * 60 * 1000)) of
             None \<Rightarrow> Inl RangeError
           | Some endDate \<Rightarrow> Inr (v\<lparr>v_end_dt := toISOString endDate\<rparr>)))"

definition default_end :: "(string \<Rightarrow> int option) \<Rightarrow> locals \<Rightarrow> locals" where
  "default_end other v =
     (if v_start_dt v \<noteq> [] \<and> includes_str (v_start_dt v) ''T''
      then (case end_try other v of Inr v' \<Rightarrow> v' | Inl e \<Rightarrow> v)
      else v)"

definition result :: "locals \<Rightarrow> EventData" where
  "result v =
     \<lparr>title = or_undefined (v_title v), start_dt = or_undefined (v_start_dt v),
      end_dt = or_undefined (v_end_dt v), location = or_undefined (v_location v),
      notes = or_undefined (v_notes v), confidence = min (v_confidence v) (fl 1)\<rparr>"

definition parseEventFromText :: "(string \<Rightarrow> int option) \<Rightarrow> string \<Rightarrow> js_error + EventData" where
  "parseEventFromText other txt =
     (let lines = text_lines txt;
          v1 = extract_title lines initial;
          v2 = extract_date_time other lines v1
      in case extract_location lines v2 of
           Inl e \<Rightarrow> Inl e
         | Inr v3 \<Rightarrow> Inr (result (default_end other (extract_notes lines v3))))"

section \<open>The store and the outside world\<close>

text \<open>
  Both edge functions work on three tables of one database and call services outside the
  program. The tables are lists of rows in insertion order. What the outside answers
  during one invocation is an input of the model, the record \<open>world\<close>; the calls made are
  returned as a list, in the order they are made.

  The column \<open>start_dt\<close> is written and read as the string the program inserts. A
  request to the outside always returns with an answer: no exception of the network is
  modelled.
\<close>

record draft_row = EventData +
  row_id :: string                          \<comment> \<open>\<open>id\<close>\<close>
  user_id :: string
  source_message_id :: string
  needs_confirmation :: "bool option"
  ocr_text :: "string option"
  created_at :: int

record date_time =
  dateTime :: "string option"
  timeZone :: string

record GoogleCalendarEvent =
  summary :: string
  description :: string
  start_time :: date_time                   \<comment> \<open>\<open>start\<close>\<close>
  end_time :: date_time                     \<comment> \<open>\<open>end\<close>\<close>
  event_location :: "string option"         \<comment> \<open>\<open>location\<close>, absent unless assigned\<close>
  reminders_useDefault :: bool              \<comment> \<open>\<open>reminders.useDefault\<close>\<close>

record calendar_response =
  response_id :: string                     \<comment> \<open>\<open>id\<close>\<close>
  htmlLink :: string

record event_row =
  event_user_id :: string                   \<comment> \<open>\<open>user_id\<close>\<close>
  draft_event_id :: string
  google_event_id :: string
  calendar_id :: string
  request_payload :: GoogleCalendarEvent
  response_payload :: calendar_response

record user_row =
  user_row_id :: string                     \<comment> \<open>\<open>id\<close>\<close>
  google_access_token :: "string option"
  google_refresh_token :: "string option"

record store =
  users :: "user_row list"
  draft_events :: "draft_row list"
  events :: "event_row list"
  processed_messages :: "string list"       \<comment> \<open>ids of the messages with \<open>processed = true\<close>\<close>

record world =
  date_other :: "string \<Rightarrow> int option"       \<comment> \<open>the parameter \<open>other\<close> of \<open>Date_parse\<close>\<close>
  draft_query_error :: "string option"      \<comment> \<open>the select on \<open>draft_events\<close> fails\<close>
  probe_status :: nat                       \<comment> \<open>HTTP status of the token test request\<close>
  refresh_result :: "string option"         \<comment> \<open>\<open>google-auth/refresh\<close>: the new token, \<open>None\<close> on error\<close>
  calendar_status :: nat                    \<comment> \<open>HTTP status of the event creation\<close>
  calendar_body :: string                   \<comment> \<open>its body when the status is not 2xx\<close>
  calendar_json :: calendar_response        \<comment> \<open>its body when the status is 2xx\<close>
  event_insert_error :: bool                \<comment> \<open>the insert into \<open>events\<close> fails\<close>
  draft_update_error :: bool                \<comment> \<open>the update of \<open>draft_events\<close> fails\<close>
  image_status :: nat                       \<comment> \<open>HTTP status of the image download\<close>
  draft_insert_error :: bool                \<comment> \<open>the insert into \<open>draft_events\<close> fails\<close>
  new_draft_id :: string                    \<comment> \<open>the id the database gives the new draft\<close>
  now :: int                                \<comment> \<open>the database clock\<close>

datatype call =
    UserTokenLookup string                  \<comment> \<open>select of the user's tokens\<close>
  | TokenProbe string                       \<comment> \<open>GET calendars/primary with the token\<close>
  | TokenRefresh string                     \<comment> \<open>invoke \<open>google-auth/refresh\<close>\<close>
  | CalendarInsert string GoogleCalendarEvent   \<comment> \<open>POST calendars/primary/events\<close>
  | ImageDownload
  | InvokeCreateCalendarEvent string        \<comment> \<open>invoke \<open>create-calendar-event\<close> with \<open>{ userId }\<close>\<close>

datatype commit_error =
    DatabaseError string                    \<comment> \<open>\<open>Database error: ...\<close>\<close>
  | NoDraftEventFound                       \<comment> \<open>\<open>No draft event found\<close>\<close>
  | StartTimeRequired                       \<comment> \<open>\<open>Event start time is required\<close>\<close>
  | NoGoogleAccessToken                     \<comment> \<open>\<open>No Google access token found. ...\<close>\<close>
  | RefreshFailed                           \<comment> \<open>\<open>Failed to refresh Google access token\<close>\<close>
  | InvalidGoogleAccessToken                \<comment> \<open>\<open>Invalid Google access token\<close>\<close>
  | CalendarApiError nat string             \<comment> \<open>\<open>Calendar API error: status body\<close>\<close>
  | JsError js_error                        \<comment> \<open>an exception of the runtime\<close>

datatype error_kind = ValidationError | CredentialError | ProviderError | OtherError

fun kind_of :: "commit_error \<Rightarrow> error_kind" where
  \<comment> \<open>the specification's names for the errors the handler throws\<close>
  "kind_of NoDraftEventFound = ValidationError"
| "kind_of StartTimeRequired = ValidationError"
| "kind_of NoGoogleAccessToken = CredentialError"
| "kind_of RefreshFailed = CredentialError"
| "kind_of InvalidGoogleAccessToken = CredentialError"
| "kind_of (CalendarApiError st b) = ProviderError"
| "kind_of (DatabaseError m) = OtherError"
| "kind_of (JsError e) = OtherError"

definition ok :: "nat \<Rightarrow> bool" where
  \<comment> \<open>\<open>response.ok\<close>\<close>
  "ok status = (200 \<le> status \<and> status \<le> 299)"

section \<open>The calendar commit engine: \<open>create-calendar-event\<close>\<close>

definition getValidAccessToken :: "world \<Rightarrow> store \<Rightarrow> string \<Rightarrow> (commit_error + string) \<times> call list" where
  \<comment> \<open>\<open>.single()\<close> is an error unless exactly one row is selected\<close>
  "getValidAccessToken w st userId =
     (case filter (\<lambda>u. user_row_id u = userId) (users st) of
        [user] \<Rightarrow>
          (case google_access_token user of
             None \<Rightarrow> (Inl NoGoogleAccessToken, [UserTokenLookup userId])
           | Some token \<Rightarrow>
               if token = [] then (Inl NoGoogleAccessToken, [UserTokenLookup userId])
               else if probe_status w = 401 \<and> truthy (google_refresh_token user) then
                 (case refresh_result w of
                    None \<Rightarrow> (Inl RefreshFailed,
                             [UserTokenLookup userId, TokenProbe token, TokenRefresh userId])
                  | Some access_token \<Rightarrow> (Inr access_token,
                             [UserTokenLookup userId, TokenProbe token, TokenRefresh userId]))
               else if \<not> ok (probe_status w) then
                 (Inl InvalidGoogleAccessToken, [UserTokenLookup userId, TokenProbe token])
               else (Inr token, [UserTokenLookup userId, TokenProbe token]))
      | _ \<Rightarrow> (Inl NoGoogleAccessToken, [UserTokenLookup userId]))"

definition default_end_time :: "(string \<Rightarrow> int option) \<Rightarrow> string option \<Rightarrow> js_error + string" where
  \<comment> \<open>\<open>new Date(new Date(start_dt).getTime() + 2 * 60 * 60 * 1000).toISOString()\<close>;
      \<open>new Date(null)\<close> is the time value 0, and \<open>toISOString\<close> throws on an invalid date\<close>
  "default_end_time other s =
     (case TimeClip (map_option (\<lambda>t. t + 2 * 60 * 60 * 1000)
                       (case s of None \<Rightarrow> Some 0 | Some x \<Rightarrow> Date_parse other x)) of
        None \<Rightarrow> Inl RangeError
      | Some t \<Rightarrow> Inr (toISOString t))"

definition buildGoogleEvent :: "(string \<Rightarrow> int option) \<Rightarrow> draft_row \<Rightarrow> js_error + GoogleCalendarEvent" where
  "buildGoogleEvent other draftEvent =
     (case (if truthy (end_dt draftEvent) then Inr (end_dt draftEvent)
            else map_sum (\<lambda>e. e) Some (default_end_time other (start_dt draftEvent))) of
        Inl e \<Rightarrow> Inl e
      | Inr e \<Rightarrow>
          Inr \<lparr>summary = or_else (title draftEvent) ''Event from Instagram'',
               description = ''Created from Instagram DM\<newline>\<newline>''
                             @ or_else (notes draftEvent) [],
               start_time = \<lparr>dateTime = start_dt draftEvent, timeZone = ''UTC''\<rparr>,
               end_time = \<lparr>dateTime = e, timeZone = ''UTC''\<rparr>,
               event_location = (if truthy (location draftEvent) then location draftEvent
                                 else None),
               reminders_useDefault = True\<rparr>)"

definition select_draft :: "world \<Rightarrow> store \<Rightarrow> string \<Rightarrow> string option \<Rightarrow> commit_error + draft_row option" where
  \<comment> \<open>the query on \<open>draft_events\<close> and its \<open>.maybeSingle()\<close>: no row is \<open>null\<close>, more than
      one row is an error; among drafts created at the same instant the order of the
      table decides, where the database promises no order\<close>
  "select_draft w st userId draftEventId =
     (let own = filter (\<lambda>d. user_id d = userId) (draft_events st);
          chosen =
            (if truthy draftEventId
             then filter (\<lambda>d. Some (row_id d) = draftEventId) own
             else take 1 (sort_key (\<lambda>d. - created_at d)
                            (filter (\<lambda>d. needs_confirmation d = Some False) own)))
      in case draft_query_error w of
           Some msg \<Rightarrow> Inl (DatabaseError msg)
         | None \<Rightarrow>
             (case chosen of
                [] \<Rightarrow> Inr None
              | [d] \<Rightarrow> Inr (Some d)
              | _ \<Rightarrow> Inl (DatabaseError ''multiple rows returned'')))"

record commit_success =
  eventId :: string
  eventLink :: string
  success_title :: "string option"          \<comment> \<open>\<open>title\<close>\<close>
  startTime :: "string option"

definition save_event :: "world \<Rightarrow> string \<Rightarrow> draft_row \<Rightarrow> GoogleCalendarEvent \<Rightarrow> store \<Rightarrow> store" where
  \<comment> \<open>"Save the event record"; an error of the insert is logged, not thrown\<close>
  "save_event w userId draftEvent googleEvent st =
     (if event_insert_error w then st
      else st\<lparr>events := events st @
                 [\<lparr>event_user_id = userId, draft_event_id = row_id draftEvent,
                   google_event_id = response_id (calendar_json w), calendar_id = ''primary'',
                   request_payload = googleEvent, response_payload = calendar_json w\<rparr>]\<rparr>)"

definition mark_draft :: "world \<Rightarrow> draft_row \<Rightarrow> store \<Rightarrow> store" where
  \<comment> \<open>"Mark draft as processed"; the result of the update is not read\<close>
  "mark_draft w draftEvent st =
     (if draft_update_error w then st
      else st\<lparr>draft_events :=
                 map (\<lambda>d. if row_id d = row_id draftEvent
                           then d\<lparr>needs_confirmation := Some False\<rparr> else d)
                     (draft_events st)\<rparr>)"

definition create_calendar_event ::
  "world \<Rightarrow> store \<Rightarrow> string \<Rightarrow> string option \<Rightarrow> (commit_error + commit_success) \<times> store \<times> call list" where
  \<comment> \<open>the handler of \<open>create-calendar-event\<close> for the body \<open>{ userId, draftEventId }\<close>; an
      error is the response with status 500\<close>
  "create_calendar_event w st userId draftEventId =
     (case select_draft w st userId draftEventId of
        Inl e \<Rightarrow> (Inl e, st, [])
      | Inr None \<Rightarrow> (Inl NoDraftEventFound, st, [])
      | Inr (Some draftEvent) \<Rightarrow>
          if \<not> truthy (start_dt draftEvent) then (Inl StartTimeRequired, st, [])
          else
            (case getValidAccessToken w st userId of
               (Inl e, calls) \<Rightarrow> (Inl e, st, calls)
             | (Inr accessToken, calls) \<Rightarrow>
                 (case buildGoogleEvent (date_other w) draftEvent of
                    Inl e \<Rightarrow> (Inl (JsError e), st, calls)
                  | Inr googleEvent \<Rightarrow>
                      if \<not> ok (calendar_status w)
                      then (Inl (CalendarApiError (calendar_status w) (calendar_body w)), st,
                            calls @ [CalendarInsert accessToken googleEvent])
                      else
                        (Inr \<lparr>eventId = response_id (calendar_json w),
                              eventLink = htmlLink (calendar_json w),
                              success_title = title draftEvent,
                              startTime = start_dt draftEvent\<rparr>,
                         mark_draft w draftEvent (save_event w userId draftEvent googleEvent st),
                         calls @ [CalendarInsert accessToken googleEvent]))))"

section \<open>The ingestion orchestrator: \<open>process-ocr\<close>\<close>

definition needsConfirmation :: "EventData \<Rightarrow> bool" where
  \<comment> \<open>\<open>eventData.confidence < 0.8 || !eventData.start_dt || !eventData.title\<close>; a number
      of the runtime is below the literal \<open>0.8\<close> exactly when it is below 8/10 (lemma
      \<open>below_threshold\<close>)\<close>
  "needsConfirmation eventData =
     (confidence eventData < 8 / 10 \<or> \<not> truthy (start_dt eventData) \<or> \<not> truthy (title eventData))"

definition inserted_draft :: "world \<Rightarrow> string \<Rightarrow> string \<Rightarrow> EventData \<Rightarrow> string \<Rightarrow> draft_row" where
  \<comment> \<open>the object given to \<open>insert\<close>, with the columns the database fills in\<close>
  "inserted_draft w userId messageId eventData ocrText =
     \<lparr>title = title eventData, start_dt = start_dt eventData, end_dt = end_dt eventData,
      location = location eventData, notes = notes eventData,
      confidence = confidence eventData,
      row_id = new_draft_id w, user_id = userId, source_message_id = messageId,
      needs_confirmation = Some (needsConfirmation eventData),
      ocr_text = Some ocrText, created_at = now w\<rparr>"

definition createDraftEvent ::
  "world \<Rightarrow> store \<Rightarrow> string \<Rightarrow> string \<Rightarrow> EventData \<Rightarrow> string \<Rightarrow> (string + string) \<times> store" where
  \<comment> \<open>the new id, or the error of the insert, which is thrown\<close>
  "createDraftEvent w st userId messageId eventData ocrText =
     (if draft_insert_error w then (Inl ''insert failed'', st)
      else (Inr (new_draft_id w),
            st\<lparr>draft_events := draft_events st @
                  [inserted_draft w userId messageId eventData ocrText]\<rparr>))"

datatype quick_reply = AskForDateTime | ConfirmEvent | AutoCreate

definition quick_reply_for :: "EventData \<Rightarrow> quick_reply" where
  \<comment> \<open>the three branches of \<open>sendQuickReplies\<close>\<close>
  "quick_reply_for eventData =
     (if \<not> truthy (start_dt eventData) then AskForDateTime
      else if confidence eventData < 8 / 10 then ConfirmEvent
      else AutoCreate)"







section \<open>Sample data\<close>

definition sample_event :: EventData where
  "sample_event = \<lparr>title = Some ''Info session'', start_dt = Some ''2024-09-15T19:00:00.000Z'',
     end_dt = Some ''2024-09-15T21:00:00.000Z'', location = None, notes = None,
     confidence = 1\<rparr>"

definition untitled_event :: EventData where
  "untitled_event = \<lparr>title = None, start_dt = Some ''2024-09-15T00:00:00.000Z'',
     end_dt = Some ''2024-09-15T02:00:00.000Z'', location = None, notes = None,
     confidence = 8 / 10\<rparr>"

definition draft_of :: "string \<Rightarrow> string \<Rightarrow> EventData \<Rightarrow> bool \<Rightarrow> draft_row" where
  "draft_of i u e c =
     \<lparr>title = title e, start_dt = start_dt e, end_dt = end_dt e, location = location e,
      notes = notes e, confidence = confidence e, row_id = i, user_id = u,
      source_message_id = ''m1'', needs_confirmation = Some c, ocr_text = None,
      created_at = 0\<rparr>"

definition sample_store :: store where
  "sample_store =
     \<lparr>users = [\<lparr>user_row_id = ''u1'', google_access_token = Some ''token'',
                google_refresh_token = None\<rparr>],
      draft_events = [draft_of ''d1'' ''u1'' sample_event True,
                      draft_of ''d2'' ''u2'' sample_event False,
                      draft_of ''d3'' ''u1'' (sample_event\<lparr>start_dt := None\<rparr>) True],
      events = [], processed_messages = []\<rparr>"

definition sample_world :: world where
  "sample_world =
     \<lparr>date_other = (\<lambda>s. None), draft_query_error = None, probe_status = 200,
      refresh_result = None, calendar_status = 200, calendar_body = [],
      calendar_json = \<lparr>response_id = ''g1'', htmlLink = ''https://calendar/g1''\<rparr>,
      event_insert_error = False, draft_update_error = False, image_status = 200,
      draft_insert_error = False, new_draft_id = ''d9'', now = 1\<rparr>"

definition bookkeeping_down :: world where
  "bookkeeping_down = sample_world\<lparr>event_insert_error := True\<rparr>"

definition database_down :: world where
  "database_down = sample_world\<lparr>event_insert_error := True, draft_update_error := True\<rparr>"

definition committed_store :: store where
  "committed_store =
     \<lparr>users = [\<lparr>user_row_id = ''u1'', google_access_token = Some ''token'',
                google_refresh_token = None\<rparr>],
      draft_events = [draft_of ''d0'' ''u1'' sample_event False],
      events = [], processed_messages = []\<rparr>"

definition sample_payload :: GoogleCalendarEvent where
  "sample_payload =
     \<lparr>summary = ''Info session'',
      description = ''Created from Instagram DM\<newline>\<newline>'',
      start_time = \<lparr>dateTime = Some ''2024-09-15T19:00:00.000Z'', timeZone = ''UTC''\<rparr>,
      end_time = \<lparr>dateTime = Some ''2024-09-15T21:00:00.000Z'', timeZone = ''UTC''\<rparr>,
      event_location = None, reminders_useDefault = True\<rparr>"

definition open_ended_event :: EventData where
  "open_ended_event = \<lparr>title = Some ''Info session'', start_dt = Some ''2024-09-15T19:00:00Z'',
     end_dt = None, location = None, notes = None, confidence = 1\<rparr>"

definition open_ended_store :: store where
  "open_ended_store =
     sample_store\<lparr>draft_events := [draft_of ''d4'' ''u1'' open_ended_event False]\<rparr>"

definition flyer_event :: EventData where
  "flyer_event =
     \<lparr>title = Some ''CLUB INFORMATION SESSION'', start_dt = None, end_dt = None,
      location = Some ''Student Center Room 205'',
      notes = Some ''Contact: club@university.edu\<newline>Website: https://university.edu/club'',
      confidence = 1\<rparr>"


section \<open>Properties of the dates\<close>

subsection \<open>Days and years\<close>

lemma div_succ:
  fixes x k :: int
  assumes "0 < k"
  shows "(x + 1) div k = (if (x + 1) mod k = 0 then x div k + 1 else x div k)"
proof -
  have x: "x = k * (x div k) + x mod k" by simp
  have r: "0 \<le> x mod k" "x mod k < k" using assms by simp_all
  show ?thesis
  proof (cases "x mod k + 1 = k")
    case True
    have "x + 1 = k * (x div k) + (x mod k + 1)" using x by linarith
    also have "\<dots> = k * (x div k + 1) + 0" using True by (simp add: algebra_simps)
    finally have e: "x + 1 = k * (x div k + 1) + 0" .
    have "(x + 1) div k = x div k + 1"
      by (rule int_div_pos_eq [OF e]) (use assms in simp_all)
    moreover have "(x + 1) mod k = 0"
      by (rule int_mod_pos_eq [OF e]) (use assms in simp_all)
    ultimately show ?thesis by simp
  next
    case False
    with r have lt: "x mod k + 1 < k" by linarith
    have e: "x + 1 = k * (x div k) + (x mod k + 1)" using x by linarith
    have "(x + 1) div k = x div k"
      by (rule int_div_pos_eq [OF e]) (use r lt in simp_all)
    moreover have "(x + 1) mod k = x mod k + 1"
      by (rule int_mod_pos_eq [OF e]) (use r lt in simp_all)
    ultimately show ?thesis using r by simp
  qed
qed

lemma div_bounds:
  fixes x k :: int
  assumes "0 < k"
  shows "k * (x div k) \<le> x" and "x < k * (x div k) + k"
proof -
  have "k * (x div k) + x mod k = x" by simp
  moreover have "0 \<le> x mod k" "x mod k < k" using assms by simp_all
  ultimately show "k * (x div k) \<le> x" and "x < k * (x div k) + k" by linarith+
qed

lemma mod_shift:
  "(y - 1968) mod 4 = (y::int) mod 4"
  "(y - 1900) mod 100 = y mod 100"
  "(y - 1600) mod 400 = y mod 400"
  by algebra+

lemma DayFromYear_step: "DayFromYear (y + 1) = DayFromYear y + 365 + InLeapYear y"
proof -
  have a: "(y + 1 - 1969) div 4 = (if y mod 4 = 0 then (y - 1969) div 4 + 1 else (y - 1969) div 4)"
    using div_succ [of 4 "y - 1969"] mod_shift(1) [of y] by (simp add: algebra_simps)
  have b: "(y + 1 - 1901) div 100
             = (if y mod 100 = 0 then (y - 1901) div 100 + 1 else (y - 1901) div 100)"
    using div_succ [of 100 "y - 1901"] mod_shift(2) [of y] by (simp add: algebra_simps)
  have c: "(y + 1 - 1601) div 400
             = (if y mod 400 = 0 then (y - 1601) div 400 + 1 else (y - 1601) div 400)"
    using div_succ [of 400 "y - 1601"] mod_shift(3) [of y] by (simp add: algebra_simps)
  have d: "y mod 400 = 0 \<Longrightarrow> y mod 100 = 0" "y mod 100 = 0 \<Longrightarrow> y mod 4 = 0"
    using mod_mod_cancel [of 100 400 y] mod_mod_cancel [of 4 100 y] by simp_all
  show ?thesis
    unfolding DayFromYear_def InLeapYear_def a b c using d by auto
qed

lemma DayFromYear_bounds:
  "146097 * (y - 1970) - 506 \<le> 400 * DayFromYear y"
  "400 * DayFromYear y \<le> 146097 * (y - 1970) + 589"
proof -
  define a where "a = (y - 1969) div 4"
  define b where "b = (y - 1901) div 100"
  define c where "c = (y - 1601) div 400"
  have a: "100 * y - 197200 \<le> 400 * a" "400 * a \<le> 100 * y - 196900"
    unfolding a_def using div_bounds [of 4 "y - 1969"] by linarith+
  have b: "4 * y - 8000 \<le> 400 * b" "400 * b \<le> 4 * y - 7604"
    unfolding b_def using div_bounds [of 100 "y - 1901"] by linarith+
  have c: "y - 2000 \<le> 400 * c" "400 * c \<le> y - 1601"
    unfolding c_def using div_bounds [of 400 "y - 1601"] by linarith+
  have d: "400 * DayFromYear y = 146000 * y - 287620000 + 400 * a - 400 * b + 400 * c"
    by (simp add: DayFromYear_def a_def b_def c_def)
  show "146097 * (y - 1970) - 506 \<le> 400 * DayFromYear y"
    unfolding d using a b c by simp
  show "400 * DayFromYear y \<le> 146097 * (y - 1970) + 589"
    unfolding d using a b c by simp
qed

lemma DayFromYear_bounds':
  "146097 * y - 287811596 \<le> 400 * DayFromYear y"
  "400 * DayFromYear y \<le> 146097 * y - 287810501"
  using DayFromYear_bounds [of y] by simp_all

lemma year_estimate:
  fixes d :: int
  defines "y \<equiv> 1970 + (400 * d) div 146097"
  shows "146097 * y - 287811090 \<le> 400 * d" and "400 * d < 146097 * y - 287664993"
  unfolding y_def using div_bounds [of 146097 "400 * d"] by simp_all

lemma YearFromDay_correct:
  "DayFromYear (YearFromDay d) \<le> d \<and> d < DayFromYear (YearFromDay d + 1)"
proof -
  define y where "y = 1970 + (400 * d) div 146097"
  note 1 = year_estimate [of d, folded y_def]
  have "400 * DayFromYear (y - 1) \<le> 146097 * y - 287956598"
    using DayFromYear_bounds'(2) [of "y - 1"] by simp
  with 1 have lo: "DayFromYear (y - 1) \<le> d" by linarith
  have "146097 * y - 287519402 \<le> 400 * DayFromYear (y + 2)"
    using DayFromYear_bounds'(1) [of "y + 2"] by simp
  with 1 have hi: "d < DayFromYear (y + 2)" by linarith
  show ?thesis
    unfolding YearFromDay_def Let_def y_def [symmetric]
    using lo hi by (auto simp: algebra_simps)
qed

lemma YearFromDay_range:
  assumes "- 100000000 \<le> d" and "d \<le> 100000000"
  shows "- 300000 \<le> YearFromDay d" and "YearFromDay d \<le> 300000"
proof -
  define y where "y = 1970 + (400 * d) div 146097"
  note 1 = year_estimate [of d, folded y_def]
  have 2: "y - 1 \<le> YearFromDay d" "YearFromDay d \<le> y + 1"
    unfolding YearFromDay_def Let_def y_def [symmetric] by auto
  from 1 assms have "- 299000 \<le> y" "y \<le> 299000" by linarith+
  with 2 show "- 300000 \<le> YearFromDay d" and "YearFromDay d \<le> 300000" by linarith+
qed

subsection \<open>Months and days of the month\<close>

lemma InLeapYear_cases: "InLeapYear y = 0 \<or> InLeapYear y = 1"
  by (simp add: InLeapYear_def)

lemma month_of_day:
  assumes "0 \<le> n" and "n < 365 + l" and "l = 0 \<or> l = 1"
  shows "0 \<le> MonthFromDay n l \<and> MonthFromDay n l \<le> 11
         \<and> 1 \<le> n - MonthStart (MonthFromDay n l) l + 1
         \<and> n - MonthStart (MonthFromDay n l) l + 1 \<le> DaysInMonth (MonthFromDay n l) l
         \<and> n - MonthStart (MonthFromDay n l) l + 1 \<le> 31"
  using assms unfolding MonthFromDay_def MonthStart_def DaysInMonth_def
  by (auto split: if_splits)

lemma day_in_year:
  "0 \<le> d - DayFromYear (YearFromDay d) \<and>
   d - DayFromYear (YearFromDay d) < 365 + InLeapYear (YearFromDay d)"
  using YearFromDay_correct [of d] DayFromYear_step [of "YearFromDay d"] by linarith

subsection \<open>Digits\<close>

lemma digit_cases:
  fixes n :: int
  assumes "0 \<le> n" and "n \<le> 9"
  shows "n \<in> {0, 1, 2, 3, 4, 5, 6, 7, 8, 9}"
  using assms by simp presburger

lemma digit_char_props:
  assumes "0 \<le> n" and "n \<le> 9"
  shows "is_digit (digit_char n)" and "digit_val (digit_char n) = n"
    and "digit_char n \<noteq> CHR ''+''" and "digit_char n \<noteq> CHR ''-''"
  using digit_cases [OF assms]
  by (auto simp: digit_char_def is_digit_def digit_val_def)

lemma digit_mod: "0 \<le> (n::int) mod 10" "n mod 10 \<le> 9"
  by simp_all

lemma div_split:
  fixes n k m :: int
  assumes "0 < k" and "0 < m"
  shows "n div m = k * (n div (m * k)) + n div m mod k"
proof -
  have "n div (m * k) = n div m div k" using assms by (simp add: zdiv_zmult2_eq)
  then show ?thesis using mult_div_mod_eq [of k "n div m"] by simp
qed

lemma digits2:
  assumes "0 \<le> a" "a \<le> 9" "0 \<le> b" "b \<le> 9"
  shows "digits 2 (digit_char a # digit_char b # r) = Some (10 * a + b, r)"
  using assms by (simp add: digits_def number_def digit_char_props)

lemma digits3:
  assumes "0 \<le> a" "a \<le> 9" "0 \<le> b" "b \<le> 9" "0 \<le> c" "c \<le> 9"
  shows "digits 3 (digit_char a # digit_char b # digit_char c # r)
           = Some (100 * a + 10 * b + c, r)"
  using assms by (simp add: digits_def number_def digit_char_props)

lemma digits4:
  assumes "0 \<le> a" "a \<le> 9" "0 \<le> b" "b \<le> 9" "0 \<le> c" "c \<le> 9" "0 \<le> d" "d \<le> 9"
  shows "digits 4 (digit_char a # digit_char b # digit_char c # digit_char d # r)
           = Some (1000 * a + 100 * b + 10 * c + d, r)"
  using assms by (simp add: digits_def number_def digit_char_props)

lemma digits6:
  assumes "0 \<le> a" "a \<le> 9" "0 \<le> b" "b \<le> 9" "0 \<le> c" "c \<le> 9" "0 \<le> d" "d \<le> 9"
    "0 \<le> e" "e \<le> 9" "0 \<le> f" "f \<le> 9"
  shows "digits 6 (digit_char a # digit_char b # digit_char c # digit_char d # digit_char e
                     # digit_char f # r)
           = Some (100000 * a + 10000 * b + 1000 * c + 100 * d + 10 * e + f, r)"
  using assms by (simp add: digits_def number_def digit_char_props)

lemma decimal_expansion:
  fixes n :: int
  shows "n = 10 * (n div 10) + n mod 10"
    and "n div 10 = 10 * (n div 100) + n div 10 mod 10"
    and "n div 100 = 10 * (n div 1000) + n div 100 mod 10"
    and "n div 1000 = 10 * (n div 10000) + n div 1000 mod 10"
    and "n div 10000 = 10 * (n div 100000) + n div 10000 mod 10"
    and "n div 100000 = 10 * (n div 1000000) + n div 100000 mod 10"
proof -
  have p: "(0::int) < 10" "(0::int) < 100" "(0::int) < 1000" "(0::int) < 10000"
    "(0::int) < 100000" by simp_all
  have m: "(10::int) * 10 = 100" "(100::int) * 10 = 1000" "(1000::int) * 10 = 10000"
    "(10000::int) * 10 = 100000" "(100000::int) * 10 = 1000000" by simp_all
  show "n = 10 * (n div 10) + n mod 10" by (rule mult_div_mod_eq [symmetric])
  show "n div 10 = 10 * (n div 100) + n div 10 mod 10"
    using div_split [OF p(1) p(1), of n] unfolding m .
  show "n div 100 = 10 * (n div 1000) + n div 100 mod 10"
    using div_split [OF p(1) p(2), of n] unfolding m .
  show "n div 1000 = 10 * (n div 10000) + n div 1000 mod 10"
    using div_split [OF p(1) p(3), of n] unfolding m .
  show "n div 10000 = 10 * (n div 100000) + n div 10000 mod 10"
    using div_split [OF p(1) p(4), of n] unfolding m .
  show "n div 100000 = 10 * (n div 1000000) + n div 100000 mod 10"
    using div_split [OF p(1) p(5), of n] unfolding m .
qed

lemma sexagesimal_expansion:
  fixes n :: int
  shows "n = 1000 * (n div 1000) + n mod 1000"
    and "n div 1000 = 60 * (n div 60000) + n div 1000 mod 60"
    and "n div 60000 = 60 * (n div 3600000) + n div 60000 mod 60"
proof -
  have p: "(0::int) < 60" "(0::int) < 1000" "(0::int) < 60000" by simp_all
  have m: "(1000::int) * 60 = 60000" "(60000::int) * 60 = 3600000" by simp_all
  show "n = 1000 * (n div 1000) + n mod 1000" by (rule mult_div_mod_eq [symmetric])
  show "n div 1000 = 60 * (n div 60000) + n div 1000 mod 60"
    using div_split [OF p(1) p(2), of n] unfolding m .
  show "n div 60000 = 60 * (n div 3600000) + n div 60000 mod 60"
    using div_split [OF p(1) p(3), of n] unfolding m .
qed

lemma small_div:
  fixes n k :: int
  assumes "0 \<le> n" and "n < k"
  shows "n div k = 0"
  using assms by simp

lemma pad2_digits:
  assumes "0 \<le> n" and "n < 100"
  shows "digits 2 (pad2 n @ r) = Some (n, r)"
proof -
  let ?a = "n div 10 mod 10" and ?b = "n mod 10"
  have "n div 100 = 0" using assms by (rule small_div)
  with decimal_expansion(1,2) [of n] have v: "10 * ?a + ?b = n" by linarith
  have "digits 2 (pad2 n @ r) = digits 2 (digit_char ?a # digit_char ?b # r)"
    by (simp add: pad2_def)
  also have "\<dots> = Some (10 * ?a + ?b, r)" by (rule digits2) simp_all
  finally show ?thesis by (simp only: v)
qed

lemma pad3_digits:
  assumes "0 \<le> n" and "n < 1000"
  shows "digits 3 (pad3 n @ r) = Some (n, r)"
proof -
  let ?a = "n div 100 mod 10" and ?b = "n div 10 mod 10" and ?c = "n mod 10"
  have "n div 1000 = 0" using assms by (rule small_div)
  with decimal_expansion(1,2,3) [of n] have v: "100 * ?a + 10 * ?b + ?c = n" by linarith
  have "digits 3 (pad3 n @ r) = digits 3 (digit_char ?a # digit_char ?b # digit_char ?c # r)"
    by (simp add: pad3_def pad2_def)
  also have "\<dots> = Some (100 * ?a + 10 * ?b + ?c, r)" by (rule digits3) simp_all
  finally show ?thesis by (simp only: v)
qed

lemma pad4_digits:
  assumes "0 \<le> n" and "n < 10000"
  shows "digits 4 (pad4 n @ r) = Some (n, r)"
proof -
  let ?a = "n div 1000 mod 10" and ?b = "n div 100 mod 10" and ?c = "n div 10 mod 10"
    and ?d = "n mod 10"
  have "n div 10000 = 0" using assms by (rule small_div)
  with decimal_expansion(1,2,3,4) [of n]
  have v: "1000 * ?a + 100 * ?b + 10 * ?c + ?d = n" by linarith
  have "digits 4 (pad4 n @ r)
          = digits 4 (digit_char ?a # digit_char ?b # digit_char ?c # digit_char ?d # r)"
    by (simp add: pad4_def pad3_def pad2_def)
  also have "\<dots> = Some (1000 * ?a + 100 * ?b + 10 * ?c + ?d, r)"
    by (rule digits4) simp_all
  finally show ?thesis by (simp only: v)
qed

lemma pad6_digits:
  assumes "0 \<le> n" and "n < 1000000"
  shows "digits 6 (pad6 n @ r) = Some (n, r)"
proof -
  let ?a = "n div 100000 mod 10" and ?b = "n div 10000 mod 10" and ?c = "n div 1000 mod 10"
    and ?d = "n div 100 mod 10" and ?e = "n div 10 mod 10" and ?f = "n mod 10"
  have "n div 1000000 = 0" using assms by (rule small_div)
  with decimal_expansion [of n]
  have v: "100000 * ?a + 10000 * ?b + 1000 * ?c + 100 * ?d + 10 * ?e + ?f = n" by linarith
  have "digits 6 (pad6 n @ r)
          = digits 6 (digit_char ?a # digit_char ?b # digit_char ?c # digit_char ?d
                        # digit_char ?e # digit_char ?f # r)"
    by (simp add: pad6_def pad4_def pad3_def pad2_def)
  also have "\<dots> = Some (100000 * ?a + 10000 * ?b + 1000 * ?c + 100 * ?d + 10 * ?e + ?f, r)"
    by (rule digits6) simp_all
  finally show ?thesis by (simp only: v)
qed

lemma parse_year_string:
  assumes "- 999999 \<le> y" and "y \<le> 999999"
  shows "parse_year (year_string y @ r) = Some (y, r)"
proof -
  consider "0 \<le> y \<and> y \<le> 9999" | "y < 0" | "9999 < y" by linarith
  then show ?thesis
  proof cases
    case 1
    then have "parse_year (pad4 y @ r) = digits 4 (pad4 y @ r)"
      by (simp add: parse_year_def pad4_def digit_char_props)
    also have "\<dots> = Some (y, r)" using 1 by (intro pad4_digits) simp_all
    finally show ?thesis using 1 by (simp add: year_string_def)
  next
    case 2
    have d: "digits 6 (pad6 (- y) @ r) = Some (- y, r)"
      using 2 assms by (intro pad6_digits) simp_all
    have "year_string y @ r = CHR ''-'' # pad6 (- y) @ r"
      using 2 by (simp add: year_string_def)
    then show ?thesis using 2 by (simp add: parse_year_def d)
  next
    case 3
    have d: "digits 6 (pad6 y @ r) = Some (y, r)"
      using 3 assms by (intro pad6_digits) simp_all
    have "year_string y @ r = CHR ''+'' # pad6 y @ r"
      using 3 by (simp add: year_string_def)
    then show ?thesis by (simp add: parse_year_def d)
  qed
qed

lemma expect_head: "expect c (c # r) = Some r"
  by (simp add: expect_def)

lemma time_of_day_fields:
  fixes tm :: int
  assumes "0 \<le> tm" and "tm < 86400000"
  shows "0 \<le> tm div 3600000 \<and> tm div 3600000 \<le> 23"
    and "MakeTime (tm div 3600000) (tm div 60000 mod 60) (tm div 1000 mod 60) (tm mod 1000) = tm"
proof -
  show "0 \<le> tm div 3600000 \<and> tm div 3600000 \<le> 23"
    using assms div_bounds [of 3600000 tm] by linarith
  show "MakeTime (tm div 3600000) (tm div 60000 mod 60) (tm div 1000 mod 60) (tm mod 1000) = tm"
    unfolding MakeTime_def using sexagesimal_expansion [of tm] by linarith
qed

lemma parse_time_string:
  assumes "0 \<le> tm" and "tm < 86400000"
  shows "parse_time (''T'' @ pad2 (tm div 3600000) @ '':'' @ pad2 (tm div 60000 mod 60) @ '':''
           @ pad2 (tm div 1000 mod 60) @ ''.'' @ pad3 (tm mod 1000) @ ''Z'') = Some tm"
proof -
  note f = time_of_day_fields [OF assms]
  have h: "digits 2 (pad2 (tm div 3600000) @ r) = Some (tm div 3600000, r)" for r
    using f(1) by (intro pad2_digits) simp_all
  have m: "digits 2 (pad2 (tm div 60000 mod 60) @ r) = Some (tm div 60000 mod 60, r)" for r
    by (intro pad2_digits) simp_all
  have s: "digits 2 (pad2 (tm div 1000 mod 60) @ r) = Some (tm div 1000 mod 60, r)" for r
    by (intro pad2_digits) simp_all
  have ms: "digits 3 (pad3 (tm mod 1000) @ r) = Some (tm mod 1000, r)" for r
    by (intro pad3_digits) simp_all
  have le: "tm div 60000 mod 60 \<le> 59" "tm div 1000 mod 60 \<le> 59"
    by simp_all
  show ?thesis
    unfolding parse_time_def
    by (simp only: append_Cons append_Nil expect_head h m s ms bind.bind_lunit split
        option.case f le HOL.simp_thms if_True)
qed

subsection \<open>Parsing what \<open>toISOString\<close> prints\<close>

lemma parseISO_toISOString:
  assumes "- 8640000000000000 \<le> t" and "t \<le> 8640000000000000"
  shows "parseISO (toISOString t) = Some t"
proof -
  define day where "day = t div 86400000"
  define tm where "tm = t mod 86400000"
  define y where "y = YearFromDay day"
  define n where "n = day - DayFromYear y"
  define l where "l = InLeapYear y"
  define m where "m = MonthFromDay n l"
  define d where "d = n - MonthStart m l + 1"
  have tm: "0 \<le> tm" "tm < 86400000" by (simp_all add: tm_def)
  have t: "t = day * 86400000 + tm" by (simp add: day_def tm_def)
  have day: "- 100000000 \<le> day" "day \<le> 100000000"
    using assms t tm by linarith+
  have y: "- 999999 \<le> y" "y \<le> 999999"
    using YearFromDay_range [OF day] by (simp_all add: y_def)
  have n: "0 \<le> n" "n < 365 + l"
    using day_in_year [of day] by (simp_all add: n_def y_def l_def)
  have l: "l = 0 \<or> l = 1" using InLeapYear_cases [of y] by (simp add: l_def)
  from month_of_day [OF n l]
  have md: "0 \<le> m" "m \<le> 11" "1 \<le> d" "d \<le> DaysInMonth m l" "d \<le> 31"
    by (simp_all add: m_def d_def)
  have s: "toISOString t =
             year_string y @ CHR ''-'' # pad2 (m + 1) @ CHR ''-'' # pad2 d @
               (''T'' @ pad2 (tm div 3600000) @ '':'' @ pad2 (tm div 60000 mod 60) @ '':''
                  @ pad2 (tm div 1000 mod 60) @ ''.'' @ pad3 (tm mod 1000) @ ''Z'')"
    by (simp add: toISOString_def Let_def msPerDay_def day_def tm_def y_def n_def l_def m_def d_def)
  have pm: "digits 2 (pad2 (m + 1) @ r) = Some (m + 1, r)" for r
    using md by (intro pad2_digits) simp_all
  have pd: "digits 2 (pad2 d @ r) = Some (d, r)" for r
    using md by (intro pad2_digits) simp_all
  have pt: "parse_time (''T'' @ pad2 (tm div 3600000) @ '':'' @ pad2 (tm div 60000 mod 60) @ '':''
                  @ pad2 (tm div 1000 mod 60) @ ''.'' @ pad3 (tm mod 1000) @ ''Z'') = Some tm"
    by (rule parse_time_string [OF tm])
  have ne: "(''T'' @ pad2 (tm div 3600000) @ '':'' @ pad2 (tm div 60000 mod 60) @ '':''
                  @ pad2 (tm div 1000 mod 60) @ ''.'' @ pad3 (tm mod 1000) @ ''Z'') \<noteq> []"
    by simp
  have ok: "1 \<le> m + 1 \<and> m + 1 \<le> 12 \<and> 1 \<le> d \<and> d \<le> DaysInMonth (m + 1 - 1) (InLeapYear y)"
    using md by (simp add: l_def)
  have v: "MakeDate (MakeDay y (m + 1 - 1) d) tm = t"
    unfolding MakeDate_def MakeDay_def msPerDay_def
    using t by (simp add: d_def n_def l_def)
  show ?thesis
    unfolding s parseISO_def
    by (simp only: parse_year_string [OF y] expect_head pm pd pt ne ok v bind.bind_lunit split
        if_True if_False simp_thms)
qed

subsection \<open>The default end of a calendar event\<close>

lemma Date_parse_range:
  "Date_parse other s = Some t \<Longrightarrow> - 8640000000000000 \<le> t \<and> t \<le> 8640000000000000"
  by (auto simp: Date_parse_def TimeClip_def split: option.splits if_splits)

lemma Date_parse_toISOString:
  assumes "- 8640000000000000 \<le> t" and "t \<le> 8640000000000000"
  shows "Date_parse other (toISOString t) = Some t"
  using assms by (simp add: Date_parse_def parseISO_toISOString TimeClip_def)

text \<open>
  Claim C8. When the draft that \<open>create-calendar-event\<close> selects has a start that the
  runtime parses and no end, the payload of the request to the calendar has as end the
  timestamp two hours after the start: the string \<open>toISOString\<close> prints for it, which
  parses back to that timestamp. (In the last two hours of the range of time values no
  payload is built: \<open>toISOString\<close> throws, and the handler answers with that error.) For
  the start \<open>2024-09-15T19:00:00Z\<close> the end is \<open>2024-09-15T21:00:00.000Z\<close>, the timestamp
  \<open>2024-09-15T21:00:00Z\<close>.
\<close>

theorem default_end_two_hours_after_start:
  assumes "select_draft w st userId draftEventId = Inr (Some d)"
    and "start_dt d = Some s" and "s \<noteq> []"
    and "Date_parse (date_other w) s = Some t" and "\<not> truthy (end_dt d)"
    and "getValidAccessToken w st userId = (Inr token, calls)"
  shows "(t + 7200000 \<le> 8640000000000000 \<longrightarrow>
            (\<exists>r st' ev. create_calendar_event w st userId draftEventId
                            = (r, st', calls @ [CalendarInsert token ev])
                \<and> buildGoogleEvent (date_other w) d = Inr ev
                \<and> dateTime (start_time ev) = Some s
                \<and> dateTime (end_time ev) = Some (toISOString (t + 7200000)))
            \<and> Date_parse other' (toISOString (t + 7200000)) = Some (t + 7200000))
       \<and> (8640000000000000 < t + 7200000 \<longrightarrow>
            create_calendar_event w st userId draftEventId = (Inl (JsError RangeError), st, calls))"
proof (intro conjI impI)
  assume le: "t + 7200000 \<le> 8640000000000000"
  from Date_parse_range [OF assms(4)] have lo: "- 8640000000000000 \<le> t + 7200000" by simp
  from le lo have "default_end_time (date_other w) (start_dt d) = Inr (toISOString (t + 7200000))"
    using assms(2,4) by (simp add: default_end_time_def TimeClip_def)
  then obtain ev where ev: "buildGoogleEvent (date_other w) d = Inr ev"
    "dateTime (start_time ev) = Some s"
    "dateTime (end_time ev) = Some (toISOString (t + 7200000))"
    using assms(2,5) by (simp add: buildGoogleEvent_def)
  from assms(1,2,3,6) ev(1)
  have "\<exists>r st'. create_calendar_event w st userId draftEventId
                   = (r, st', calls @ [CalendarInsert token ev])"
    by (simp add: create_calendar_event_def truthy_def)
  with ev show "\<exists>r st' ev. create_calendar_event w st userId draftEventId
                            = (r, st', calls @ [CalendarInsert token ev])
                \<and> buildGoogleEvent (date_other w) d = Inr ev
                \<and> dateTime (start_time ev) = Some s
                \<and> dateTime (end_time ev) = Some (toISOString (t + 7200000))"
    by blast
  show "Date_parse other' (toISOString (t + 7200000)) = Some (t + 7200000)"
    by (rule Date_parse_toISOString [OF lo le])
next
  assume "8640000000000000 < t + 7200000"
  then have "default_end_time (date_other w) (start_dt d) = Inl RangeError"
    using assms(2,4) by (simp add: default_end_time_def TimeClip_def)
  then have "buildGoogleEvent (date_other w) d = Inl RangeError"
    using assms(5) by (simp add: buildGoogleEvent_def)
  with assms(1,2,3,6)
  show "create_calendar_event w st userId draftEventId = (Inl (JsError RangeError), st, calls)"
    by (simp add: create_calendar_event_def truthy_def)
qed

lemma sample_times:
  "parseISO ''2024-09-15T19:00:00Z'' = Some 1726426800000"
  "parseISO ''2024-09-15T21:00:00Z'' = Some 1726434000000"
  "toISOString 1726434000000 = ''2024-09-15T21:00:00.000Z''"
  by code_simp+

theorem default_end_two_hours_after_start_witness:
  "select_draft sample_world open_ended_store ''u1'' None
     = Inr (Some (draft_of ''d4'' ''u1'' open_ended_event False))
   \<and> start_dt (draft_of ''d4'' ''u1'' open_ended_event False) = Some ''2024-09-15T19:00:00Z''
   \<and> Date_parse (date_other sample_world) ''2024-09-15T19:00:00Z'' = Some 1726426800000
   \<and> \<not> truthy (end_dt (draft_of ''d4'' ''u1'' open_ended_event False))
   \<and> (\<exists>r st' ev. create_calendar_event sample_world open_ended_store ''u1'' None
                     = (r, st', [UserTokenLookup ''u1'', TokenProbe ''token'',
                                 CalendarInsert ''token'' ev])
          \<and> dateTime (start_time ev) = Some ''2024-09-15T19:00:00Z''
          \<and> dateTime (end_time ev) = Some ''2024-09-15T21:00:00.000Z'')
   \<and> Date_parse (\<lambda>s. None) ''2024-09-15T21:00:00.000Z'' = Some (1726426800000 + 7200000)
   \<and> Date_parse (\<lambda>s. None) ''2024-09-15T21:00:00Z'' = Some (1726426800000 + 7200000)"
proof -
  let ?d = "draft_of ''d4'' ''u1'' open_ended_event False"
  have sel: "select_draft sample_world open_ended_store ''u1'' None = Inr (Some ?d)"
    by (simp add: select_draft_def sample_world_def open_ended_store_def sample_store_def
        draft_of_def truthy_def)
  have a: "start_dt ?d = Some ''2024-09-15T19:00:00Z''"
    by (simp add: draft_of_def open_ended_event_def)
  have b: "Date_parse (date_other sample_world) ''2024-09-15T19:00:00Z'' = Some 1726426800000"
    by (simp add: Date_parse_def sample_times TimeClip_def)
  have c: "\<not> truthy (end_dt ?d)" by (simp add: draft_of_def open_ended_event_def truthy_def)
  have tok: "getValidAccessToken sample_world open_ended_store ''u1''
               = (Inr ''token'', [UserTokenLookup ''u1'', TokenProbe ''token''])"
    by (simp add: getValidAccessToken_def sample_world_def open_ended_store_def sample_store_def
        truthy_def ok_def)
  have e: "Date_parse (\<lambda>s. None) ''2024-09-15T21:00:00Z'' = Some (1726426800000 + 7200000)"
    by (simp add: Date_parse_def sample_times TimeClip_def)
  have f: "toISOString (1726426800000 + 7200000) = ''2024-09-15T21:00:00.000Z''"
    by (simp add: sample_times)
  have ne: "''2024-09-15T19:00:00Z'' \<noteq> []" by simp
  from default_end_two_hours_after_start [OF sel a ne b c tok, of "\<lambda>s. None"] f
  have "(\<exists>r st' ev. create_calendar_event sample_world open_ended_store ''u1'' None
                     = (r, st', [UserTokenLookup ''u1'', TokenProbe ''token'',
                                 CalendarInsert ''token'' ev])
          \<and> dateTime (start_time ev) = Some ''2024-09-15T19:00:00Z''
          \<and> dateTime (end_time ev) = Some ''2024-09-15T21:00:00.000Z'')
   \<and> Date_parse (\<lambda>s. None) ''2024-09-15T21:00:00.000Z'' = Some (1726426800000 + 7200000)"
    by auto
  with sel a b c e show ?thesis by blast
qed

section \<open>Properties of the numbers\<close>

subsection \<open>Rounding\<close>

lemma two_floor_bounds:
  "0 < x \<Longrightarrow> 0 < two_floor x \<and> two_floor x \<le> x \<and> x < 2 * two_floor x"
proof (induction x rule: two_floor.induct)
  case (1 x)
  show ?case
  proof (cases "x < 1")
    case True
    with 1 have "0 < two_floor (2 * x) \<and> two_floor (2 * x) \<le> 2 * x \<and> 2 * x < 2 * two_floor (2 * x)"
      by simp
    moreover have "two_floor x = two_floor (2 * x) / 2"
      using True "1.prems" by (subst two_floor.simps) simp
    ultimately show ?thesis by simp
  next
    case False
    show ?thesis
    proof (cases "2 \<le> x")
      case True
      with 1 False have "0 < two_floor (x / 2) \<and> two_floor (x / 2) \<le> x / 2 \<and> x / 2 < 2 * two_floor (x / 2)"
        by simp
      moreover have "two_floor x = 2 * two_floor (x / 2)"
        using True by (subst two_floor.simps) simp
      ultimately show ?thesis by simp
    next
      case n: False
      have "two_floor x = 1" using False n by (subst two_floor.simps) simp
      with False n show ?thesis by simp
    qed
  qed
qed

lemma two_floor_power:
  "0 < x \<Longrightarrow> \<exists>k. two_floor x = 2 powi k"
proof (induction x rule: two_floor.induct)
  case (1 x)
  show ?case
  proof (cases "x < 1")
    case True
    with 1 obtain k where k: "two_floor (2 * x) = 2 powi k" by auto
    have "two_floor x = two_floor (2 * x) / 2"
      using True "1.prems" by (subst two_floor.simps) simp
    with k have "two_floor x = 2 powi (k - 1)" by (simp add: power_int_diff)
    then show ?thesis ..
  next
    case False
    show ?thesis
    proof (cases "2 \<le> x")
      case True
      with 1 False obtain k where k: "two_floor (x / 2) = 2 powi k" by auto
      have "two_floor x = 2 * two_floor (x / 2)"
        using True by (subst two_floor.simps) simp
      with k have "two_floor x = 2 powi (k + 1)" by (simp add: power_int_add)
      then show ?thesis ..
    next
      case n: False
      have "two_floor x = 1" using False n by (subst two_floor.simps) simp
      then have "two_floor x = 2 powi 0" by simp
      then show ?thesis ..
    qed
  qed
qed

lemma binade_order:
  fixes x y :: rat
  assumes "2 powi i \<le> x" and "x \<le> y" and "y < 2 * 2 powi j"
  shows "2 powi i \<le> (2::rat) powi j"
proof -
  have "(2::rat) powi i < 2 powi (j + 1)" using assms by (simp add: power_int_add)
  then have "i < j + 1"
    by (metis linorder_not_less one_le_numeral power_int_increasing)
  then have "i \<le> j" by simp
  then show ?thesis by (intro power_int_increasing) simp_all
qed

lemma two_floor_unique:
  assumes "0 < x" and "2 powi k \<le> x" and "x < 2 * 2 powi k"
  shows "two_floor x = 2 powi k"
proof -
  from two_floor_power [OF assms(1)] obtain j where j: "two_floor x = 2 powi j" ..
  from two_floor_bounds [OF assms(1)] j have b: "2 powi j \<le> x" "x < 2 * 2 powi j" by simp_all
  from binade_order [OF assms(2) order_refl b(2)] binade_order [OF b(1) order_refl assms(3)]
  have "(2::rat) powi k = 2 powi j" by simp
  with j show ?thesis by simp
qed

lemma round_even_of_int [simp]: "round_even (of_int n) = n"
  by (simp add: round_even_def)

lemma round_even_mono:
  assumes "r \<le> s"
  shows "round_even r \<le> round_even s"
proof (cases "\<lfloor>r\<rfloor> = \<lfloor>s\<rfloor>")
  case True
  with assms show ?thesis by (auto simp: round_even_def Let_def)
next
  case False
  with assms have "\<lfloor>r\<rfloor> + 1 \<le> \<lfloor>s\<rfloor>" using floor_mono [OF assms] by linarith
  moreover have "round_even r \<le> \<lfloor>r\<rfloor> + 1" by (auto simp: round_even_def Let_def)
  moreover have "\<lfloor>s\<rfloor> \<le> round_even s" by (auto simp: round_even_def Let_def)
  ultimately show ?thesis by linarith
qed

lemma round_even_ge: "of_int n \<le> r \<Longrightarrow> n \<le> round_even r"
  using round_even_mono [of "of_int n" r] by simp

lemma round_even_le: "r \<le> of_int n \<Longrightarrow> round_even r \<le> n"
  using round_even_mono [of r "of_int n"] by simp

lemma ulp_pos: "0 < x \<Longrightarrow> 0 < ulp x"
  using two_floor_bounds [of x] by (simp add: ulp_def)

lemma fl_pos: "0 < x \<Longrightarrow> fl x = of_int (round_even (x / ulp x)) * ulp x"
  by (simp add: fl_def)

lemma significand_range:
  assumes "0 < x"
  shows "2 ^ 52 \<le> round_even (x / ulp x)" "round_even (x / ulp x) \<le> 2 ^ 53"
proof -
  from two_floor_bounds [OF assms] have p: "0 < two_floor x" "two_floor x \<le> x" "x < 2 * two_floor x"
    by simp_all
  have "of_int (2 ^ 52) \<le> x / ulp x" using p by (simp add: ulp_def pos_le_divide_eq)
  then show "2 ^ 52 \<le> round_even (x / ulp x)" by (rule round_even_ge)
  have "x / ulp x \<le> of_int (2 ^ 53)" using p by (simp add: ulp_def pos_divide_le_eq)
  then show "round_even (x / ulp x) \<le> 2 ^ 53" by (rule round_even_le)
qed

lemma fl_bounds:
  assumes "0 < x"
  shows "two_floor x \<le> fl x" "fl x \<le> 2 * two_floor x"
proof -
  from two_floor_bounds [OF assms] have p: "0 < two_floor x" by simp
  from significand_range [OF assms]
  have "(2::rat) ^ 52 \<le> of_int (round_even (x / ulp x))" "of_int (round_even (x / ulp x)) \<le> (2::rat) ^ 53"
    by (metis of_int_le_iff of_int_numeral of_int_power)+
  then have "2 ^ 52 * ulp x \<le> of_int (round_even (x / ulp x)) * ulp x"
    "of_int (round_even (x / ulp x)) * ulp x \<le> 2 ^ 53 * ulp x"
    using ulp_pos [OF assms] by simp_all
  then show "two_floor x \<le> fl x" "fl x \<le> 2 * two_floor x"
    using assms by (simp_all add: fl_pos ulp_def)
qed

lemma fl_nonneg: "0 \<le> x \<Longrightarrow> 0 \<le> fl x"
proof (cases "x = 0")
  case True
  then show ?thesis by (simp add: fl_def)
next
  case False
  assume "0 \<le> x"
  with False have x: "0 < x" by simp
  from fl_bounds(1) [OF x] two_floor_bounds [OF x] show ?thesis by simp
qed

lemma fl_mono_pos:
  assumes "0 < x" and "x \<le> y"
  shows "fl x \<le> fl y"
proof -
  from assms have y: "0 < y" by simp
  from two_floor_power [OF assms(1)] obtain i where i: "two_floor x = 2 powi i" ..
  from two_floor_power [OF y] obtain j where j: "two_floor y = 2 powi j" ..
  from two_floor_bounds [OF assms(1)] two_floor_bounds [OF y] i j
  have b: "2 powi i \<le> x" "y < 2 * 2 powi j" by simp_all
  show ?thesis
  proof (cases "i = j")
    case True
    with i j have u: "ulp x = ulp y" by (simp add: ulp_def)
    have "x / ulp y \<le> y / ulp y" using assms(2) ulp_pos [OF y] by (simp add: divide_right_mono)
    then have "round_even (x / ulp y) \<le> round_even (y / ulp y)" by (rule round_even_mono)
    then have "of_int (round_even (x / ulp y)) * ulp y \<le> of_int (round_even (y / ulp y)) * ulp y"
      using ulp_pos [OF y] by simp
    then show ?thesis using assms(1) y u by (simp add: fl_pos)
  next
    case False
    have "(2::rat) powi i < 2 powi (j + 1)" using b assms(2) by (simp add: power_int_add)
    then have "i < j + 1"
      by (metis linorder_not_less one_le_numeral power_int_increasing)
    with False have "i + 1 \<le> j" by simp
    then have "(2::rat) powi (i + 1) \<le> 2 powi j" by (intro power_int_increasing) simp_all
    then have "2 * two_floor x \<le> two_floor y" using i j by (simp add: power_int_add)
    with fl_bounds(2) [OF assms(1)] fl_bounds(1) [OF y] show ?thesis by simp
  qed
qed

lemma fl_mono:
  assumes "0 \<le> x" and "x \<le> y"
  shows "fl x \<le> fl y"
proof (cases "x = 0")
  case True
  with assms fl_nonneg [of y] show ?thesis by (simp add: fl_def)
next
  case False
  with assms show ?thesis by (intro fl_mono_pos) simp_all
qed

lemma fl_idem:
  assumes "0 \<le> x"
  shows "fl (fl x) = fl x"
proof (cases "x = 0")
  case True
  then show ?thesis by (simp add: fl_def)
next
  case False
  with assms have x: "0 < x" by simp
  from two_floor_power [OF x] obtain k where k: "two_floor x = 2 powi k" ..
  from two_floor_bounds [OF x] have p: "0 < two_floor x" by simp
  define n where "n = round_even (x / ulp x)"
  have flx: "fl x = of_int n * ulp x" using x by (simp add: fl_pos n_def)
  from significand_range [OF x] have n: "2 ^ 52 \<le> n" "n \<le> 2 ^ 53" by (simp_all add: n_def)
  from fl_bounds [OF x] p have y: "0 < fl x" "2 powi k \<le> fl x" "fl x \<le> 2 * 2 powi k"
    unfolding k by linarith+
  show ?thesis
  proof (cases "n = 2 ^ 53")
    case True
    then have e: "fl x = 2 powi (k + 1)" using flx k by (simp add: ulp_def power_int_add)
    have "two_floor (fl x) = 2 powi (k + 1)"
      by (rule two_floor_unique) (simp_all add: e)
    then have u: "ulp (fl x) = fl x / 2 ^ 52" using e by (simp add: ulp_def)
    have "fl x / ulp (fl x) = of_int (2 ^ 52)" unfolding u using y(1) by simp
    then have "round_even (fl x / ulp (fl x)) = 2 ^ 52" by (simp only: round_even_of_int)
    then have "fl (fl x) = of_int (2 ^ 52) * (fl x / 2 ^ 52)"
      by (simp only: fl_pos [OF y(1)] u)
    then show ?thesis by simp
  next
    case False
    with n have "n < 2 ^ 53" by simp
    then have "of_int n < (2::rat) ^ 53"
      by (metis of_int_less_iff of_int_numeral of_int_power)
    then have "of_int n * ulp x < 2 ^ 53 * ulp x" using ulp_pos [OF x] by simp
    moreover have "2 ^ 53 * ulp x = 2 * 2 powi k" using k by (simp add: ulp_def)
    ultimately have "fl x < 2 * 2 powi k" using flx by (simp only:)
    with y have "two_floor (fl x) = 2 powi k" by (intro two_floor_unique)
    then have u: "ulp (fl x) = ulp x" using k by (simp add: ulp_def)
    have "fl x / ulp x = of_int n" using flx ulp_pos [OF x] by simp
    then have "round_even (fl x / ulp (fl x)) = n" using u by simp
    then have "fl (fl x) = of_int n * ulp x" by (simp only: fl_pos [OF y(1)] u)
    then show ?thesis by (simp only: flx)
  qed
qed

subsection \<open>The literals and the threshold\<close>

lemma literal_values:
  "fl (1 / 2) = 1 / 2"
  "fl 1 = 1"
  "fl (1 / 10) = 3602879701896397 / 36028797018963968"
  "fl (1 / 5) = 3602879701896397 / 18014398509481984"
  "fl (3 / 10) = 5404319552844595 / 18014398509481984"
  "fl (4 / 5) = 3602879701896397 / 4503599627370496"
  "fl (11 / 10) = 2476979795053773 / 2251799813685248"
  by code_simp+

lemma fl_stagnates: "fl (18014398509481985 / 2) = 9007199254740992"
proof -
  let ?x = "18014398509481985 / 2 :: rat"
  have "two_floor ?x = 2 powi 53" by (rule two_floor_unique) simp_all
  then have u: "ulp ?x = 2" by (simp add: ulp_def)
  have "\<lfloor>18014398509481985 / 4 :: rat\<rfloor> = 4503599627370496" by (rule floor_unique) simp_all
  then have "round_even (?x / 2) = 4503599627370496" by (simp add: round_even_def Let_def)
  then show ?thesis by (simp add: fl_def u)
qed

lemma below_threshold:
  assumes "representable c"
  shows "c < 8 / 10 \<longleftrightarrow> c < fl (8 / 10)"
proof
  assume "c < 8 / 10"
  then show "c < fl (8 / 10)" by (simp add: literal_values)
next
  assume less: "c < fl (8 / 10)"
  show "c < 8 / 10"
  proof (rule ccontr)
    assume "\<not> c < 8 / 10"
    then have lo: "4 / 5 \<le> c" by simp
    from less have hi: "c < 3602879701896397 / 4503599627370496" by (simp add: literal_values)
    from lo hi have c: "0 < c" "c < 1" "1 \<le> 2 * c" "2 * c < 2" by simp_all
    have "two_floor (2 * c) = 1" using c by (subst two_floor.simps) simp
    then have "two_floor c = 1 / 2" using c by (subst two_floor.simps) simp
    then have u: "ulp c = 1 / 2 ^ 53" by (simp add: ulp_def)
    define n where "n = round_even (c / ulp c)"
    from assms c(1) have "c = of_int n * ulp c" by (simp add: representable_def fl_pos n_def)
    then have n: "c = of_int n / 9007199254740992" by (simp add: u)
    from lo n have "rat_of_int 7205759403792793 < of_int n" by simp
    then have "7205759403792793 < n" by (simp only: of_int_less_iff)
    moreover from hi n have "of_int n < rat_of_int 7205759403792794" by simp
    then have "n < 7205759403792794" by (simp only: of_int_less_iff)
    ultimately show False by simp
  qed
qed

lemma add_bonus:
  assumes "in_range c" and "0 \<le> b" and "b \<le> 1 / 2"
  shows "in_range (fl (c + b))" and "c \<le> fl (c + b)"
proof -
  from assms have c: "1 / 2 \<le> c" "c \<le> 9007199254740992" "fl c = c"
    by (simp_all add: in_range_def representable_def)
  have lo: "1 / 2 \<le> fl (c + b)"
    using fl_mono [of "1 / 2" "c + b"] c assms(2) by (simp add: literal_values)
  have hi: "fl (c + b) \<le> 9007199254740992"
    using fl_mono [of "c + b" "18014398509481985 / 2"] c assms(2,3) by (simp add: fl_stagnates)
  have "fl (fl (c + b)) = fl (c + b)" using c assms(2) by (intro fl_idem) simp
  with lo hi show "in_range (fl (c + b))" by (simp add: in_range_def representable_def)
  show "c \<le> fl (c + b)" using fl_mono [of c "c + b"] c assms(2) by simp
qed

lemma add_literal:
  assumes "in_range c"
  shows "in_range (fl (c + fl (1 / 10)))" "in_range (fl (c + fl (1 / 5)))"
    "in_range (fl (c + fl (3 / 10)))"
    "c \<le> fl (c + fl (1 / 10))" "c \<le> fl (c + fl (1 / 5))" "c \<le> fl (c + fl (3 / 10))"
  by (rule add_bonus [OF assms]; simp add: literal_values)+

lemma in_range_initial: "in_range (v_confidence initial)"
  by (simp add: initial_def in_range_def representable_def literal_values)

section \<open>Properties of the commit engine and of the confirmation policy\<close>

text \<open>
  Claim C2. For every candidate event, confirmation is required exactly when the
  confidence is below 0.8, or the start is absent, or the title is absent. With a
  confidence of at least 0.8 and both fields present it is not required; with either field
  missing it is required whatever the confidence. The draft that \<open>createDraftEvent\<close>
  inserts carries this value in \<open>needs_confirmation\<close>.
\<close>

theorem confirmation_rule:
  "(needsConfirmation e \<longleftrightarrow>
      confidence e < 8 / 10 \<or> \<not> truthy (start_dt e) \<or> \<not> truthy (title e)) \<and>
   (8 / 10 \<le> confidence e \<and> truthy (title e) \<and> truthy (start_dt e) \<longrightarrow> \<not> needsConfirmation e) \<and>
   (\<not> truthy (title e) \<or> \<not> truthy (start_dt e) \<longrightarrow> needsConfirmation e) \<and>
   (\<not> draft_insert_error w \<longrightarrow>
      createDraftEvent w st u m e txt
        = (Inr (new_draft_id w), st\<lparr>draft_events := draft_events st @ [inserted_draft w u m e txt]\<rparr>)
      \<and> needs_confirmation (inserted_draft w u m e txt) = Some (needsConfirmation e))"
  by (auto simp: needsConfirmation_def createDraftEvent_def inserted_draft_def)

theorem confirmation_rule_witness:
  "8 / 10 \<le> confidence sample_event \<and> truthy (title sample_event) \<and> truthy (start_dt sample_event)
   \<and> \<not> needsConfirmation sample_event
   \<and> \<not> truthy (title untitled_event) \<and> needsConfirmation untitled_event
   \<and> \<not> draft_insert_error sample_world
   \<and> needs_confirmation (inserted_draft sample_world ''u1'' ''m2'' untitled_event ''date: 2024-09-15'')
       = Some True"
proof -
  have a: "8 / 10 \<le> confidence sample_event \<and> truthy (title sample_event) \<and> truthy (start_dt sample_event)"
    by (simp add: sample_event_def truthy_def)
  have b: "\<not> truthy (title untitled_event)" by (simp add: untitled_event_def truthy_def)
  have c: "\<not> draft_insert_error sample_world" by (simp add: sample_world_def)
  from confirmation_rule [of sample_event sample_world sample_store "''u1''" "''m2''" "''date: 2024-09-15''"] a
  have 1: "\<not> needsConfirmation sample_event" by blast
  from confirmation_rule [of untitled_event sample_world sample_store "''u1''" "''m2''" "''date: 2024-09-15''"] b c
  have 2: "needsConfirmation untitled_event"
    and 3: "needs_confirmation (inserted_draft sample_world ''u1'' ''m2'' untitled_event ''date: 2024-09-15'')
              = Some (needsConfirmation untitled_event)" by blast+
  from a b c 1 2 3 show ?thesis by simp
qed

lemma select_none_omitted:
  assumes "draft_query_error w = None" and "\<not> truthy draftEventId"
    and "\<forall>d\<in>set (draft_events st). user_id d = userId \<longrightarrow> needs_confirmation d \<noteq> Some False"
  shows "select_draft w st userId draftEventId = Inr None"
proof -
  have "filter (\<lambda>d. needs_confirmation d = Some False) (filter (\<lambda>d. user_id d = userId) (draft_events st)) = []"
    using assms(3) by (auto simp: filter_empty_conv)
  then show ?thesis using assms(1,2) by (simp add: select_draft_def)
qed

lemma select_none_foreign:
  assumes "draft_query_error w = None" and "i \<noteq> []"
    and "\<forall>d\<in>set (draft_events st). row_id d = i \<longrightarrow> user_id d \<noteq> userId"
  shows "select_draft w st userId (Some i) = Inr None"
proof -
  have "filter (\<lambda>d. Some (row_id d) = Some i) (filter (\<lambda>d. user_id d = userId) (draft_events st)) = []"
    using assms(3) by (auto simp: filter_empty_conv)
  then show ?thesis using assms(1,2) by (simp add: select_draft_def truthy_def)
qed

text \<open>
  Claim C6. When the query selects no draft, or the selected draft has an empty start,
  \<open>create-calendar-event\<close> answers with a validation error, the store is unchanged (no
  event recorded, no draft updated) and no call has been made (no token lookup, no
  request to the provider). This includes the request without a draft id when no draft of
  the user has \<open>needs_confirmation = false\<close>.
\<close>

theorem commit_validation_error:
  "(select_draft w st userId draftEventId = Inr None
      \<or> (\<exists>d. select_draft w st userId draftEventId = Inr (Some d) \<and> \<not> truthy (start_dt d))
    \<longrightarrow> (\<exists>e. create_calendar_event w st userId draftEventId = (Inl e, st, [])
             \<and> kind_of e = ValidationError)) \<and>
   (draft_query_error w = None \<and> \<not> truthy draftEventId
      \<and> (\<forall>d\<in>set (draft_events st). user_id d = userId \<longrightarrow> needs_confirmation d \<noteq> Some False)
    \<longrightarrow> create_calendar_event w st userId draftEventId = (Inl NoDraftEventFound, st, []))"
proof (intro conjI impI)
  assume "select_draft w st userId draftEventId = Inr None
      \<or> (\<exists>d. select_draft w st userId draftEventId = Inr (Some d) \<and> \<not> truthy (start_dt d))"
  then show "\<exists>e. create_calendar_event w st userId draftEventId = (Inl e, st, [])
             \<and> kind_of e = ValidationError"
    by (auto simp: create_calendar_event_def)
next
  assume "draft_query_error w = None \<and> \<not> truthy draftEventId
      \<and> (\<forall>d\<in>set (draft_events st). user_id d = userId \<longrightarrow> needs_confirmation d \<noteq> Some False)"
  then have "select_draft w st userId draftEventId = Inr None"
    using select_none_omitted by blast
  then show "create_calendar_event w st userId draftEventId = (Inl NoDraftEventFound, st, [])"
    by (simp add: create_calendar_event_def)
qed

text \<open>
  Claim C10. A request with an explicit draft id whose draft exists but belongs to another
  user is answered with "No draft event found"; the store is unchanged and no call is
  made.
\<close>

theorem foreign_draft_not_found:
  assumes "draft_query_error w = None" and "i \<noteq> []"
    and "\<exists>d\<in>set (draft_events st). row_id d = i"
    and "\<forall>d\<in>set (draft_events st). row_id d = i \<longrightarrow> user_id d \<noteq> userId"
  shows "create_calendar_event w st userId (Some i) = (Inl NoDraftEventFound, st, [])
         \<and> kind_of NoDraftEventFound = ValidationError"
  using select_none_foreign [OF assms(1,2,4)] by (simp add: create_calendar_event_def)

theorem commit_validation_error_witness:
  "select_draft sample_world sample_store ''u1'' (Some ''d3'')
     = Inr (Some (draft_of ''d3'' ''u1'' (sample_event\<lparr>start_dt := None\<rparr>) True))
   \<and> \<not> truthy (start_dt (draft_of ''d3'' ''u1'' (sample_event\<lparr>start_dt := None\<rparr>) True))
   \<and> (\<exists>e. create_calendar_event sample_world sample_store ''u1'' (Some ''d3'') = (Inl e, sample_store, [])
          \<and> kind_of e = ValidationError)
   \<and> draft_query_error sample_world = None \<and> \<not> truthy None
   \<and> filter (\<lambda>d. user_id d = ''u1'' \<and> needs_confirmation d = Some False)
        (draft_events sample_store) = []
   \<and> create_calendar_event sample_world sample_store ''u1'' None = (Inl NoDraftEventFound, sample_store, [])"
proof -
  have a: "select_draft sample_world sample_store ''u1'' (Some ''d3'')
     = Inr (Some (draft_of ''d3'' ''u1'' (sample_event\<lparr>start_dt := None\<rparr>) True))"
    by (simp add: select_draft_def sample_world_def sample_store_def draft_of_def truthy_def)
  have b: "\<not> truthy (start_dt (draft_of ''d3'' ''u1'' (sample_event\<lparr>start_dt := None\<rparr>) True))"
    by (simp add: draft_of_def truthy_def)
  have c: "draft_query_error sample_world = None \<and> \<not> truthy None"
    by (simp add: sample_world_def truthy_def)
  have d: "\<forall>d\<in>set (draft_events sample_store). user_id d = ''u1'' \<longrightarrow> needs_confirmation d \<noteq> Some False"
    by (simp add: sample_store_def draft_of_def)
  from commit_validation_error [of sample_world sample_store "''u1''" "Some ''d3''"] a b
  have 1: "\<exists>e. create_calendar_event sample_world sample_store ''u1'' (Some ''d3'') = (Inl e, sample_store, [])
          \<and> kind_of e = ValidationError" by blast
  from commit_validation_error [of sample_world sample_store "''u1''" None] c d
  have 2: "create_calendar_event sample_world sample_store ''u1'' None = (Inl NoDraftEventFound, sample_store, [])"
    by blast
  have e: "filter (\<lambda>d. user_id d = ''u1'' \<and> needs_confirmation d = Some False)
        (draft_events sample_store) = []"
    by (simp add: sample_store_def draft_of_def)
  from a b c e 1 2 show ?thesis by blast
qed

theorem foreign_draft_not_found_witness:
  "draft_query_error sample_world = None \<and> ''d2'' \<noteq> []
   \<and> map user_id (filter (\<lambda>d. row_id d = ''d2'') (draft_events sample_store)) = [''u2'']
   \<and> create_calendar_event sample_world sample_store ''u1'' (Some ''d2'')
       = (Inl NoDraftEventFound, sample_store, [])"
proof -
  have a: "draft_query_error sample_world = None" by (simp add: sample_world_def)
  have b: "''d2'' \<noteq> []" by simp
  have c: "\<exists>d\<in>set (draft_events sample_store). row_id d = ''d2''"
    by (simp add: sample_store_def draft_of_def)
  have d: "\<forall>d\<in>set (draft_events sample_store). row_id d = ''d2'' \<longrightarrow> user_id d \<noteq> ''u1''"
    by (simp add: sample_store_def draft_of_def)
  have e: "map user_id (filter (\<lambda>d. row_id d = ''d2'') (draft_events sample_store)) = [''u2'']"
    by (simp add: sample_store_def draft_of_def)
  from foreign_draft_not_found [OF a b c d] a b e show ?thesis by blast
qed

lemmas sample_defs = sample_event_def untitled_event_def draft_of_def sample_store_def sample_world_def
  bookkeeping_down_def database_down_def

lemmas commit_defs = create_calendar_event_def select_draft_def getValidAccessToken_def
  buildGoogleEvent_def save_event_def mark_draft_def truthy_def ok_def or_else_def

text \<open>
  Claim C9, amended. When the submission to the calendar succeeds and the insert of the
  event record fails, \<open>create-calendar-event\<close> still reports success with the provider's
  event id, makes no call after the submission (nothing is rolled back) and records no
  event. It still issues the update that sets \<open>needs_confirmation\<close> to false: when that
  update succeeds, every row of the draft carries false afterwards.
\<close>

theorem commit_survives_bookkeeping_failure:
  assumes "select_draft w st userId draftEventId = Inr (Some d)"
    and "truthy (start_dt d)"
    and "getValidAccessToken w st userId = (Inr token, calls)"
    and "buildGoogleEvent (date_other w) d = Inr googleEvent"
    and "ok (calendar_status w)"
    and "event_insert_error w"
  shows "\<exists>r st'. create_calendar_event w st userId draftEventId
                    = (Inr r, st', calls @ [CalendarInsert token googleEvent])
           \<and> eventId r = response_id (calendar_json w)
           \<and> events st' = events st
           \<and> (\<not> draft_update_error w \<longrightarrow>
                 list_all (\<lambda>x. needs_confirmation x = Some False)
                   (filter (\<lambda>x. row_id x = row_id d) (draft_events st')))"
  using assms
  by (auto simp: create_calendar_event_def save_event_def mark_draft_def list_all_iff)

theorem commit_survives_bookkeeping_failure_witness:
  "event_insert_error bookkeeping_down \<and> ok (calendar_status bookkeeping_down)
   \<and> \<not> draft_update_error bookkeeping_down
   \<and> (\<exists>r st'. create_calendar_event bookkeeping_down sample_store ''u1'' (Some ''d1'')
                 = (Inr r, st', [UserTokenLookup ''u1'', TokenProbe ''token'',
                                 CalendarInsert ''token'' sample_payload])
          \<and> eventId r = ''g1'' \<and> events st' = []
          \<and> list_all (\<lambda>x. needs_confirmation x = Some False)
                (filter (\<lambda>x. row_id x = ''d1'') (draft_events st')))"
proof -
  let ?d = "draft_of ''d1'' ''u1'' sample_event True"
  have a: "select_draft bookkeeping_down sample_store ''u1'' (Some ''d1'') = Inr (Some ?d)"
    by (simp add: sample_defs select_draft_def truthy_def)
  have b: "truthy (start_dt ?d)" by (simp add: sample_defs truthy_def)
  have c: "getValidAccessToken bookkeeping_down sample_store ''u1''
             = (Inr ''token'', [UserTokenLookup ''u1'', TokenProbe ''token''])"
    by (simp add: sample_defs getValidAccessToken_def truthy_def ok_def)
  have d: "buildGoogleEvent (date_other bookkeeping_down) ?d = Inr sample_payload"
    by (simp add: sample_defs sample_payload_def buildGoogleEvent_def truthy_def or_else_def)
  have e: "ok (calendar_status bookkeeping_down)" by (simp add: sample_defs ok_def)
  have f: "event_insert_error bookkeeping_down" by (simp add: sample_defs)
  have g: "\<not> draft_update_error bookkeeping_down" by (simp add: sample_defs)
  have h: "response_id (calendar_json bookkeeping_down) = ''g1''" "events sample_store = []"
    "row_id ?d = ''d1''"
    by (simp_all add: sample_defs)
  from commit_survives_bookkeeping_failure [OF a b c d e f] g h e f
  show ?thesis by auto
qed

text \<open>
  The claim as stated fails where the update of the draft fails too: success is
  reported, and the draft still needs confirmation. The error of that update is a second
  one that the handler does not propagate.
\<close>

theorem swallowed_update_counterexample:
  "event_insert_error database_down \<and> ok (calendar_status database_down)
   \<and> create_calendar_event database_down sample_store ''u1'' (Some ''d1'')
       = (Inr \<lparr>eventId = ''g1'', eventLink = ''https://calendar/g1'',
               success_title = Some ''Info session'',
               startTime = Some ''2024-09-15T19:00:00.000Z''\<rparr>,
          sample_store,
          [UserTokenLookup ''u1'', TokenProbe ''token'', CalendarInsert ''token'' sample_payload])
   \<and> map needs_confirmation (filter (\<lambda>d. row_id d = ''d1'') (draft_events sample_store))
       = [Some True]"
  by (simp add: sample_defs sample_payload_def commit_defs)

section \<open>Properties of the text extractor\<close>

subsection \<open>The extractor never throws, and the confidence stays in range\<close>

lemma first_some_member: "first_some xs = Some y \<Longrightarrow> Some y \<in> set xs"
  by (induction xs rule: first_some.induct) auto

lemma first_some_map:
  "first_some (map f xs) = Some y \<Longrightarrow> \<exists>x\<in>set xs. f x = Some y"
proof (induction xs)
  case Nil
  then show ?case by simp
next
  case (Cons x xs)
  then show ?case by (cases "f x") auto
qed

lemma run_group1:
  "run ic its s seen st cap = Some m \<Longrightarrow> cap \<noteq> None \<or> Close \<in> set its \<Longrightarrow> group1 m \<noteq> None"
proof (induction ic its s seen st cap rule: run.induct)
  case (1 ic s seen st cap)
  then show ?case by auto
next
  case (2 ic r s seen st cap)
  then show ?case by auto
next
  case (3 ic r s seen st cap)
  then show ?case by auto
next
  case (4 ic as r s seen st cap)
  from "4.prems"(1) obtain a where a: "a \<in> set (filter (\<lambda>a. lit_at ic a s) as)"
    and r: "run ic r (drop (length a) s) (seen @ take (length a) s) st cap = Some m"
    unfolding run.simps by (blast dest: first_some_map)
  from "4.IH" [OF a r] "4.prems"(2) show ?case by auto
next
  case (5 ic as r s seen st cap)
  from "5.prems"(1) obtain a where a: "a \<in> set (filter (\<lambda>a. lit_at ic a s) (as @ [[]]))"
    and r: "run ic r (drop (length a) s) (seen @ take (length a) s) st cap = Some m"
    unfolding run.simps by (blast dest: first_some_map)
  from "5.IH" [OF a r] "5.prems"(2) show ?case by auto
next
  case (6 ic c lo hi r s seen st cap)
  define n where "n = length (takeWhile (in_cls c) s)"
  define mx where "mx = (case hi of None \<Rightarrow> n | Some h \<Rightarrow> min h n)"
  from "6.prems"(1) obtain k where k: "k \<in> set (rev [lo ..< Suc mx])"
    and r: "run ic r (drop k s) (seen @ take k s) st cap = Some m"
    unfolding run.simps Let_def n_def mx_def by (blast dest: first_some_map)
  from "6.IH" [OF n_def mx_def k r] "6.prems"(2) show ?case by auto
qed

lemma rx_search_group1:
  "rx_search re line = Some m \<Longrightarrow> Close \<in> set (items re) \<Longrightarrow> group1 m \<noteq> None"
  by (induction re line rule: rx_search.induct) (auto split: option.splits dest: run_group1)

lemma rx_exec_group1:
  "rx_exec line re = Some m \<Longrightarrow> Close \<in> set (items re) \<Longrightarrow> \<exists>g. group1 m = Some g"
  using rx_search_group1 [of re line m] by (auto simp: rx_exec_def)

lemma location_line_total:
  assumes "\<forall>re\<in>set res. Close \<in> set (items re)" and "in_range (v_confidence v)"
  shows "\<exists>v'. location_line line res v = Inr v' \<and> in_range (v_confidence v')
              \<and> v_confidence v \<le> v_confidence v'
              \<and> v_title v' = v_title v \<and> v_start_dt v' = v_start_dt v"
  using assms
proof (induction res)
  case Nil
  then show ?case by simp
next
  case (Cons re res)
  show ?case
  proof (cases "rx_exec line re")
    case None
    with Cons show ?thesis by simp
  next
    case (Some m)
    with Cons.prems obtain g where "group1 m = Some g"
      using rx_exec_group1 by fastforce
    with Some Cons show ?thesis by (simp add: add_literal)
  qed
qed

lemma locationRegexes_close: "\<forall>re\<in>set locationRegexes. Close \<in> set (items re)"
  by (simp add: locationRegexes_def rx_loc_label_def rx_loc_at_def rx_loc_room_def rx_loc_place_def)

lemma extract_location_total:
  assumes "in_range (v_confidence v)"
  shows "\<exists>v'. extract_location lines v = Inr v' \<and> in_range (v_confidence v')
              \<and> v_confidence v \<le> v_confidence v'
              \<and> v_title v' = v_title v \<and> v_start_dt v' = v_start_dt v"
  using assms
proof (induction lines arbitrary: v)
  case Nil
  then show ?case by simp
next
  case (Cons line lines)
  from location_line_total [OF locationRegexes_close Cons.prems, of line]
  obtain v1 where v1: "location_line line locationRegexes v = Inr v1" "in_range (v_confidence v1)"
    "v_confidence v \<le> v_confidence v1" "v_title v1 = v_title v" "v_start_dt v1 = v_start_dt v"
    by blast
  from Cons.IH [OF v1(2)] obtain v2 where "extract_location lines v1 = Inr v2"
    "in_range (v_confidence v2)" "v_confidence v1 \<le> v_confidence v2"
    "v_title v2 = v_title v1" "v_start_dt v2 = v_start_dt v1"
    by blast
  with v1 show ?case by auto
qed

lemma date_step_confidence:
  "in_range (v_confidence v) \<Longrightarrow> in_range (v_confidence (date_step other line v re))"
  by (auto simp: date_step_def date_try_def date_catch_def add_literal split: option.splits sum.splits)

lemma date_loop_confidence:
  "in_range (v_confidence v) \<Longrightarrow> in_range (v_confidence (foldl (date_step other line) v res))"
proof (induction res arbitrary: v)
  case Nil
  then show ?case by simp
next
  case (Cons re res)
  from Cons.IH [OF date_step_confidence [OF Cons.prems]] show ?case by simp
qed

lemma time_step_confidence:
  "in_range (v_confidence v) \<Longrightarrow> in_range (v_confidence (time_step other line v))"
  by (auto simp: time_step_def Let_def add_literal split: option.splits)

lemma line_step_confidence:
  "in_range (v_confidence v) \<Longrightarrow> in_range (v_confidence (line_step other v line))"
  unfolding line_step_def by (intro time_step_confidence date_loop_confidence)

lemma extract_date_time_confidence:
  "in_range (v_confidence v) \<Longrightarrow> in_range (v_confidence (extract_date_time other lines v))"
  unfolding extract_date_time_def
proof (induction lines arbitrary: v)
  case Nil
  then show ?case by simp
next
  case (Cons line lines)
  from Cons.IH [OF line_step_confidence [OF Cons.prems]] show ?case by simp
qed

lemma extract_title_confidence:
  "in_range (v_confidence v) \<Longrightarrow> in_range (v_confidence (extract_title lines v))"
  by (simp add: extract_title_def add_literal split: list.splits)

lemma extract_notes_confidence:
  assumes "in_range (v_confidence v)"
  shows "in_range (v_confidence (extract_notes lines v))"
    and "v_confidence v \<le> v_confidence (extract_notes lines v)"
    and "v_title (extract_notes lines v) = v_title v"
    and "v_start_dt (extract_notes lines v) = v_start_dt v"
  using assms by (simp_all add: extract_notes_def add_literal)

lemma default_end_keeps:
  "v_title (default_end other v) = v_title v" "v_start_dt (default_end other v) = v_start_dt v"
  by (auto simp: default_end_def end_try_def split: option.splits sum.splits)

lemma default_end_confidence: "v_confidence (default_end other v) = v_confidence v"
  by (auto simp: default_end_def end_try_def split: option.splits sum.splits)

lemma date_step_title: "v_title (date_step other line v re) = v_title v"
  by (auto simp: date_step_def date_try_def date_catch_def split: option.splits sum.splits)

lemma date_loop_title: "v_title (foldl (date_step other line) v res) = v_title v"
  by (induction res arbitrary: v) (simp_all add: date_step_title)

lemma time_step_title: "v_title (time_step other line v) = v_title v"
  by (auto simp: time_step_def Let_def split: option.splits)

lemma extract_date_time_title: "v_title (extract_date_time other lines v) = v_title v"
  unfolding extract_date_time_def
  by (induction lines arbitrary: v) (simp_all add: line_step_def time_step_title date_loop_title)

lemma extractor_result:
  "\<exists>v. parseEventFromText other txt = Inr (result v) \<and> in_range (v_confidence v)
       \<and> v_title v = v_title (extract_title (text_lines txt) initial)
       \<and> v_start_dt v = v_start_dt (extract_date_time other (text_lines txt)
                                       (extract_title (text_lines txt) initial))
       \<and> v_confidence (extract_date_time other (text_lines txt)
                         (extract_title (text_lines txt) initial)) \<le> v_confidence v"
proof -
  let ?lines = "text_lines txt"
  let ?v1 = "extract_title ?lines initial"
  let ?v2 = "extract_date_time other ?lines ?v1"
  have "in_range (v_confidence ?v2)"
    by (intro extract_date_time_confidence extract_title_confidence in_range_initial)
  then obtain v3 where v3: "extract_location ?lines ?v2 = Inr v3" "in_range (v_confidence v3)"
    "v_confidence ?v2 \<le> v_confidence v3" "v_title v3 = v_title ?v2"
    "v_start_dt v3 = v_start_dt ?v2"
    using extract_location_total by blast
  let ?v = "default_end other (extract_notes ?lines v3)"
  have "in_range (v_confidence ?v)" "v_confidence ?v2 \<le> v_confidence ?v"
    "v_title ?v = v_title ?v1" "v_start_dt ?v = v_start_dt ?v2"
    using extract_notes_confidence [OF v3(2), of ?lines] v3(3,4,5)
    by (simp_all add: default_end_confidence default_end_keeps extract_date_time_title)
  moreover have "parseEventFromText other txt = Inr (result ?v)"
    using v3(1) by (simp add: parseEventFromText_def Let_def)
  ultimately show ?thesis by blast
qed

lemma confidence_range:
  "\<exists>v. parseEventFromText other txt = Inr (result v) \<and> in_range (v_confidence v)"
  using extractor_result [of other "txt"] by blast

lemma result_representable:
  assumes "parseEventFromText other txt = Inr e"
  shows "representable (confidence e)"
proof -
  from confidence_range [of other "txt"] assms
  obtain v where v: "e = result v" "in_range (v_confidence v)" by auto
  then show ?thesis
    by (auto simp: result_def in_range_def representable_def literal_values min_def)
qed

lemma threshold_on_results:
  assumes "parseEventFromText other txt = Inr e"
  shows "confidence e < 8 / 10 \<longleftrightarrow> confidence e < fl (8 / 10)"
  by (rule below_threshold [OF result_representable [OF assms]])

lemma rounded_sums:
  "parseEventFromText other ''Chess Club\<newline>http://x.org'' =
     Inr \<lparr>title = Some ''Chess Club'', start_dt = None, end_dt = None, location = None,
          notes = Some ''http://x.org'',
          confidence = 7205759403792793 / 9007199254740992\<rparr>"
  "fl (fl (fl (fl (5 / 10) + fl (2 / 10)) + fl (2 / 10)) + fl (1 / 10))
     = 9007199254740991 / 9007199254740992"
  by code_simp+

text \<open>
  Claim C7. For every input text the extractor returns an event whose confidence lies
  in [0, 1]. For the empty text, title, start, end, location and notes are all absent and
  the confidence is exactly 0.5. The confidence is the rounded sum that the runtime
  computes: 0.7999999999999999 and 0.9999999999999999 in the two sums of lemma
  \<open>rounded_sums\<close>, where the decimal sums are 0.8 and 1.
\<close>

theorem confidence_in_unit_interval:
  "(\<exists>e. parseEventFromText other txt = Inr e \<and> 0 \<le> confidence e \<and> confidence e \<le> 1) \<and>
   parseEventFromText other [] =
     Inr \<lparr>title = None, start_dt = None, end_dt = None, location = None, notes = None,
          confidence = 5 / 10\<rparr>"
proof
  from confidence_range [of other "txt"]
  obtain v where "parseEventFromText other txt = Inr (result v)" "in_range (v_confidence v)"
    by blast
  then show "\<exists>e. parseEventFromText other txt = Inr e \<and> 0 \<le> confidence e \<and> confidence e \<le> 1"
    by (auto simp: result_def in_range_def literal_values)
next
  have "text_lines [] = []" by (simp add: text_lines_def split_lines_def trim_def)
  then show "parseEventFromText other [] =
     Inr \<lparr>title = None, start_dt = None, end_dt = None, location = None, notes = None,
          confidence = 5 / 10\<rparr>"
    by (simp add: parseEventFromText_def extract_title_def titleCandidates_def
        extract_date_time_def extract_notes_def noteLines_def default_end_def result_def
        initial_def or_undefined_def literal_values)
qed

subsection \<open>What the date loop does with a match\<close>

lemma date_try_never_throws: "\<exists>v'. date_try other matchedText v = Inr v'"
  by (simp add: date_try_def split: option.splits)

lemma date_step_parseable:
  assumes "rx_exec line re = Some m" and "Date_parse other (matched_text m) = Some t"
  shows "date_step other line v re =
           v\<lparr>v_start_dt := toISOString t, v_dateFound := True,
             v_confidence := fl (v_confidence v + fl (3 / 10))\<rparr>"
  using assms by (simp add: date_step_def date_try_def)

lemma date_step_unparseable:
  assumes "rx_exec line re = Some m" and "Date_parse other (matched_text m) = None"
  shows "date_step other line v re = v"
  using assms by (simp add: date_step_def date_try_def)

lemma includes_str_append: "includes_str (xs @ p @ ys) p"
proof (induction xs)
  case Nil
  show ?case
  proof (cases "p @ ys")
    case Nil
    then show ?thesis by simp
  next
    case (Cons a list)
    have "take (length p) (p @ ys) = p" by simp
    with Cons show ?thesis by (simp add: startsWith_def)
  qed
next
  case (Cons x xs)
  then show ?case by simp
qed

lemma toISOString_has_T: "includes_str (toISOString t) ''T''"
proof -
  obtain xs ys where "toISOString t = xs @ ''T'' @ ys"
    unfolding toISOString_def Let_def by (metis append.assoc)
  then show ?thesis by (simp only: includes_str_append)
qed

lemma toISOString_not_empty: "toISOString t \<noteq> []"
  using toISOString_has_T [of t] by (cases "toISOString t") simp_all

lemma date_step_start:
  assumes "v_start_dt v = [] \<or> includes_str (v_start_dt v) ''T''"
  shows "v_start_dt (date_step other line v re) = []
         \<or> includes_str (v_start_dt (date_step other line v re)) ''T''"
  using assms
  by (auto simp: date_step_def date_try_def toISOString_has_T split: option.splits)

lemma date_loop_start:
  assumes "v_start_dt v = [] \<or> includes_str (v_start_dt v) ''T''"
  shows "v_start_dt (foldl (date_step other line) v res) = []
         \<or> includes_str (v_start_dt (foldl (date_step other line) v res)) ''T''"
  using assms
proof (induction res arbitrary: v)
  case Nil
  then show ?case by simp
next
  case (Cons re res)
  from Cons.IH [OF date_step_start [OF Cons.prems]] show ?case by simp
qed

lemma time_step_keeps_start:
  assumes "v_start_dt v = [] \<or> includes_str (v_start_dt v) ''T''"
  shows "v_start_dt (time_step other line v) = v_start_dt v"
  using assms by (auto simp: time_step_def Let_def split: option.splits)

lemma line_step_start:
  assumes "v_start_dt v = [] \<or> includes_str (v_start_dt v) ''T''"
  shows "v_start_dt (line_step other v line) = v_start_dt (foldl (date_step other line) v dateTimeRegexes)"
    and "v_start_dt (line_step other v line) = []
         \<or> includes_str (v_start_dt (line_step other v line)) ''T''"
  using date_loop_start [OF assms, of other line dateTimeRegexes]
  by (simp_all add: line_step_def time_step_keeps_start)

lemma extract_date_time_start:
  assumes "v_start_dt v = [] \<or> includes_str (v_start_dt v) ''T''"
  shows "v_start_dt (extract_date_time other lines v) = []
         \<or> includes_str (v_start_dt (extract_date_time other lines v)) ''T''"
  using assms unfolding extract_date_time_def
proof (induction lines arbitrary: v)
  case Nil
  then show ?case by simp
next
  case (Cons line lines)
  from Cons.IH [OF line_step_start(2) [OF Cons.prems]] show ?case by simp
qed

lemma extractor_default_end:
  assumes "v_start_dt v = toISOString t"
    and "- 8640000000000000 \<le> t" and "t + 7200000 \<le> 8640000000000000"
  shows "v_end_dt (default_end other v) = toISOString (t + 7200000)"
proof -
  have "Date_parse other (toISOString t) = Some t"
    using assms(2,3) by (intro Date_parse_toISOString) simp_all
  moreover have "\<not> 8640000000000000 < \<bar>t + 7200000\<bar>"
    using assms(2,3) by linarith
  ultimately show ?thesis
    using assms(1) toISOString_has_T [of t] toISOString_not_empty [of t]
    by (simp add: default_end_def end_try_def TimeClip_def)
qed

subsection \<open>The extractor on four small flyers\<close>

lemma single_date_flyer:
  "parseEventFromText other ''date: 2024-09-15'' =
     Inr \<lparr>title = None, start_dt = Some ''2024-09-15T00:00:00.000Z'',
          end_dt = Some ''2024-09-15T02:00:00.000Z'', location = None, notes = None,
          confidence = fl (8 / 10)\<rparr>"
  by code_simp

lemma two_date_flyer:
  "parseEventFromText other ''date: 2024-09-15\<newline>date: 2024-10-20'' =
     Inr \<lparr>title = None, start_dt = Some ''2024-10-20T00:00:00.000Z'',
          end_dt = Some ''2024-10-20T02:00:00.000Z'', location = None, notes = None,
          confidence = 1\<rparr>"
  by code_simp

lemma two_date_lines:
  "text_lines ''date: 2024-09-15\<newline>date: 2024-10-20'' = [''date: 2024-09-15'', ''date: 2024-10-20'']"
  by code_simp

lemma two_date_loop:
  "extract_date_time other [''date: 2024-09-15'', ''date: 2024-10-20''] initial =
     \<lparr>v_title = [], v_start_dt = ''2024-10-20T00:00:00.000Z'', v_end_dt = [], v_location = [],
      v_notes = [], v_confidence = fl (11 / 10), v_dateFound = True, v_timeFound = False\<rparr>"
  by code_simp

lemma tba_flyer:
  "parseEventFromText (\<lambda>s. if s = ''TBA'' then None else other s) ''date: TBA'' =
     Inr \<lparr>title = None, start_dt = None, end_dt = None, location = None, notes = None,
          confidence = 5 / 10\<rparr>"
  by code_simp

lemma tba_match:
  "rx_exec ''date: TBA'' rx_date_label = Some \<lparr>whole = ''date: TBA'', group1 = Some ''TBA''\<rparr>"
  by code_simp

lemma tba_not_iso: "parseISO ''TBA'' = None"
  by code_simp

lemma date_and_time_flyer:
  "parseEventFromText (\<lambda>s. if s = ''7:00 pm'' then None else other s)
     ''date: 2024-09-15\<newline>time: 7:00 pm'' =
     Inr \<lparr>title = None, start_dt = Some ''2024-09-15T00:00:00.000Z'',
          end_dt = Some ''2024-09-15T02:00:00.000Z'', location = None, notes = None,
          confidence = 1\<rparr>"
  by code_simp

lemma date_and_time_matches:
  "text_lines ''date: 2024-09-15\<newline>time: 7:00 pm'' = [''date: 2024-09-15'', ''time: 7:00 pm'']"
  "rx_exec ''date: 2024-09-15'' rx_date_label
     = Some \<lparr>whole = ''date: 2024-09-15'', group1 = Some ''2024-09-15''\<rparr>"
  "rx_exec ''time: 7:00 pm'' timeRegex = Some \<lparr>whole = ''7:00 pm'', group1 = Some ''7:00 pm''\<rparr>"
  by code_simp+

lemma restrict_other:
  "other k = None \<Longrightarrow> (\<lambda>s. if s = k then None else other s) = other"
  by auto

text \<open>
  Claim C1 (only the first successful parse is retained as start, and the bonus 0.3 is
  added at most once) does not hold of the code: every match that parses is stored and
  rewarded, whatever the loop holds already (lemma \<open>date_step_parseable\<close>). The second
  line of the flyer below matches a date pattern again: its date replaces the start that
  the first line gave, and the bonus is added a second time (the loop leaves the
  confidence at 1.1, which the final clamp cuts to 1).
\<close>

theorem later_match_replaces_start:
  "parseEventFromText other ''date: 2024-09-15'' =
     Inr \<lparr>title = None, start_dt = Some ''2024-09-15T00:00:00.000Z'',
          end_dt = Some ''2024-09-15T02:00:00.000Z'', location = None, notes = None,
          confidence = fl (8 / 10)\<rparr> \<and>
   parseEventFromText other ''date: 2024-09-15\<newline>date: 2024-10-20'' =
     Inr \<lparr>title = None, start_dt = Some ''2024-10-20T00:00:00.000Z'',
          end_dt = Some ''2024-10-20T02:00:00.000Z'', location = None, notes = None,
          confidence = 1\<rparr> \<and>
   v_confidence (extract_date_time other
      (text_lines ''date: 2024-09-15\<newline>date: 2024-10-20'') initial) = fl (11 / 10)"
  by (simp only: single_date_flyer two_date_flyer two_date_lines two_date_loop locals.simps)

text \<open>
  Claim C4 (a first match that is no date is stored verbatim as start, with 0.1 added to
  the confidence) does not hold of the code: the \<open>try\<close> block never throws (lemma
  \<open>date_try_never_throws\<close>), so the \<open>catch\<close> block that would store the text is never
  entered, and a match that does not parse changes nothing (lemma
  \<open>date_step_unparseable\<close>). The first date-pattern match of the flyer below is \<open>TBA\<close>;
  the extractor returns no start and the confidence 0.5.
\<close>

theorem unparseable_match_is_dropped:
  assumes "other ''TBA'' = None"
  shows "rx_exec ''date: TBA'' rx_date_label = Some \<lparr>whole = ''date: TBA'', group1 = Some ''TBA''\<rparr>
         \<and> Date_parse other ''TBA'' = None
         \<and> parseEventFromText other ''date: TBA'' =
             Inr \<lparr>title = None, start_dt = None, end_dt = None, location = None, notes = None,
                  confidence = 5 / 10\<rparr>"
proof -
  have "Date_parse other ''TBA'' = None"
    using assms by (simp add: Date_parse_def tba_not_iso TimeClip_def)
  moreover from tba_flyer [of other] restrict_other [of other, OF assms]
  have "parseEventFromText other ''date: TBA'' =
             Inr \<lparr>title = None, start_dt = None, end_dt = None, location = None, notes = None,
                  confidence = 5 / 10\<rparr>" by simp
  ultimately show ?thesis using tba_match by simp
qed

theorem unparseable_match_is_dropped_witness:
  "parseEventFromText (\<lambda>s. None) ''date: TBA'' =
     Inr \<lparr>title = None, start_dt = None, end_dt = None, location = None, notes = None,
          confidence = 5 / 10\<rparr>"
  using unparseable_match_is_dropped [of "\<lambda>s. None"] by simp

text \<open>
  Claim C5 (a date line and a separate time of day are merged into one timestamp) does
  not hold of the code: the start held by the loop is empty or a string printed by
  \<open>toISOString\<close>, which contains \<open>T\<close>, so the branch that would merge is never taken
  (lemmas \<open>extract_date_time_start\<close>, \<open>time_step_keeps_start\<close>). The flyer below has a line
  with a date and a line with a time of day; the start that the extractor returns is the
  date at midnight, not the date at 7:00 pm.
\<close>

theorem date_and_time_are_not_merged:
  assumes "other ''7:00 pm'' = None"
  shows "text_lines ''date: 2024-09-15\<newline>time: 7:00 pm'' = [''date: 2024-09-15'', ''time: 7:00 pm'']
         \<and> rx_exec ''date: 2024-09-15'' rx_date_label
             = Some \<lparr>whole = ''date: 2024-09-15'', group1 = Some ''2024-09-15''\<rparr>
         \<and> rx_exec ''time: 7:00 pm'' timeRegex
             = Some \<lparr>whole = ''7:00 pm'', group1 = Some ''7:00 pm''\<rparr>
         \<and> parseEventFromText other ''date: 2024-09-15\<newline>time: 7:00 pm'' =
             Inr \<lparr>title = None, start_dt = Some ''2024-09-15T00:00:00.000Z'',
                  end_dt = Some ''2024-09-15T02:00:00.000Z'', location = None, notes = None,
                  confidence = 1\<rparr>"
proof -
  from date_and_time_flyer [of other] restrict_other [of other, OF assms]
  have "parseEventFromText other ''date: 2024-09-15\<newline>time: 7:00 pm'' =
             Inr \<lparr>title = None, start_dt = Some ''2024-09-15T00:00:00.000Z'',
                  end_dt = Some ''2024-09-15T02:00:00.000Z'', location = None, notes = None,
                  confidence = 1\<rparr>" by simp
  then show ?thesis using date_and_time_matches by simp
qed

theorem date_and_time_are_not_merged_witness:
  "parseEventFromText (\<lambda>s. None) ''date: 2024-09-15\<newline>time: 7:00 pm'' =
     Inr \<lparr>title = None, start_dt = Some ''2024-09-15T00:00:00.000Z'',
          end_dt = Some ''2024-09-15T02:00:00.000Z'', location = None, notes = None,
          confidence = 1\<rparr>"
  using date_and_time_are_not_merged [of "\<lambda>s. None"] by simp

subsection \<open>The extractor on the text of \<open>performOCR\<close>\<close>



















subsection \<open>The orchestrator's decision\<close>

lemma auto_create_condition:
  "quick_reply_for e = AutoCreate \<longleftrightarrow> truthy (start_dt e) \<and> 8 / 10 \<le> confidence e"
  by (auto simp: quick_reply_for_def)

lemma quick_reply_when_confirmed:
  "\<not> needsConfirmation e \<Longrightarrow> quick_reply_for e = AutoCreate"
  by (auto simp: needsConfirmation_def quick_reply_for_def)




end
